theory Spec2Isabelle
  imports Complex_Main "HOL-Library.Char_ord" "HOL-Library.List_Lexorder"
    "HOL-Library.Product_Lexorder" "HOL-Library.Multiset"
begin

section \<open>The sliding-window rate limiter (class RateLimiter)\<close>

text \<open>
  \<^verbatim>\<open>RateLimiter\<close> of \<^verbatim>\<open>complete_platform.py\<close> keeps a dictionary from a key to the
  list of the instants of its admitted requests, the cleanup interval (300 seconds)
  and the instant of the last cleanup. The dictionary is a map to lists; the instants
  that \<^verbatim>\<open>time.time()\<close> returns are modelled as real numbers (the order and the
  subtraction of the source, without the rounding of floats). Every reading of the
  clock is an argument of the function that reads it.
\<close>

record 'k rate_limiter =
  requests :: "'k \<rightharpoonup> real list"
  cleanup_interval :: real
  last_cleanup :: real

text \<open>\<^verbatim>\<open>__init__\<close>: no bucket, an interval of 300 seconds, the clock read once.\<close>

definition init_rate_limiter :: "real \<Rightarrow> 'k rate_limiter" where
  "init_rate_limiter now =
     \<lparr>requests = Map.empty, cleanup_interval = 300, last_cleanup = now\<rparr>"

text \<open>
  \<^verbatim>\<open>cleanup_old_requests\<close>: when more than the interval has passed since the last
  cleanup, every bucket keeps the instants \<^verbatim>\<open>ts > now - 3600\<close>, a bucket left empty
  is deleted, and the instant of the cleanup is recorded.
\<close>

definition sweep_bucket :: "real \<Rightarrow> real list option \<Rightarrow> real list option" where
  "sweep_bucket cutoff b =
     (case b of
        None \<Rightarrow> None
      | Some tss \<Rightarrow>
          (let kept = filter (\<lambda>ts. ts > cutoff) tss
           in if kept = [] then None else Some kept))"

definition cleanup_old_requests :: "real \<Rightarrow> 'k rate_limiter \<Rightarrow> 'k rate_limiter" where
  "cleanup_old_requests now rl =
     (if now - last_cleanup rl > cleanup_interval rl
      then (let cutoff = now - 3600
            in rl\<lparr>requests := (\<lambda>ip. sweep_bucket cutoff (requests rl ip)),
                  last_cleanup := now\<rparr>)
      else rl)"

text \<open>
  \<^verbatim>\<open>is_rate_limited(ip, max_requests, window_seconds)\<close> reads the clock twice: once
  inside the cleanup (\<open>t_sweep\<close>) and once for the decision (\<open>now\<close>). A key without a
  bucket gets an empty one; the instants \<^verbatim>\<open>ts > now - window_seconds\<close> of the bucket
  are the recent ones; with at least \<open>max_requests\<close> of them the call returns
  \<^verbatim>\<open>(True, max_requests - len(recent_requests))\<close> and leaves the bucket as it is;
  otherwise the bucket becomes \<^verbatim>\<open>recent_requests + [now]\<close> and the call returns
  \<^verbatim>\<open>(False, max_requests - len(recent_requests) - 1)\<close>. The result pairs the returned
  tuple with the limiter after the call.
\<close>

definition bucket_of :: "'k rate_limiter \<Rightarrow> 'k \<Rightarrow> real list" where
  "bucket_of rl ip = (case requests rl ip of None \<Rightarrow> [] | Some tss \<Rightarrow> tss)"

definition is_rate_limited ::
    "real \<Rightarrow> real \<Rightarrow> 'k \<Rightarrow> int \<Rightarrow> real \<Rightarrow> 'k rate_limiter \<Rightarrow> (bool \<times> int) \<times> 'k rate_limiter" where
  "is_rate_limited t_sweep now ip max_requests window_seconds rl =
     (let rl1 = cleanup_old_requests t_sweep rl;
          window_start = now - window_seconds;
          rl2 = (if requests rl1 ip = None
                 then rl1\<lparr>requests := (requests rl1)(ip \<mapsto> [])\<rparr> else rl1);
          recent_requests = filter (\<lambda>ts. ts > window_start) (bucket_of rl2 ip)
      in if int (length recent_requests) \<ge> max_requests
         then ((True, max_requests - int (length recent_requests)), rl2)
         else ((False, max_requests - int (length recent_requests) - 1),
               rl2\<lparr>requests := (requests rl2)(ip \<mapsto> recent_requests @ [now])\<rparr>))"

text \<open>
  A run of the limiter: each call carries its two clock readings, its key and its
  budget. \<open>admissions k rl calls\<close> lists, in the order of the calls, the instants of
  the calls on key \<open>k\<close> that were admitted when \<open>calls\<close> run from the limiter \<open>rl\<close>.
\<close>

record 'k call =
  call_sweep :: real
  call_now :: real
  call_ip :: 'k
  call_max :: int
  call_window :: real

definition do_call :: "'k call \<Rightarrow> 'k rate_limiter \<Rightarrow> (bool \<times> int) \<times> 'k rate_limiter" where
  "do_call c rl =
     is_rate_limited (call_sweep c) (call_now c) (call_ip c) (call_max c) (call_window c) rl"

fun admissions :: "'k \<Rightarrow> 'k rate_limiter \<Rightarrow> 'k call list \<Rightarrow> real list" where
  "admissions k rl [] = []"
| "admissions k rl (c # cs) =
     (if call_ip c = k \<and> \<not> fst (fst (do_call c rl)) then [call_now c] else [])
       @ admissions k (snd (do_call c rl)) cs"

text \<open>The clock never goes back: every reading is at least the one before it.\<close>

fun clock_monotone :: "real \<Rightarrow> 'k call list \<Rightarrow> bool" where
  "clock_monotone t [] = True"
| "clock_monotone t (c # cs) =
     (t \<le> call_sweep c \<and> call_sweep c \<le> call_now c \<and> clock_monotone (call_now c) cs)"

text \<open>Every call of the run on key \<open>k\<close> uses the budget \<open>(m, w)\<close>.\<close>

definition same_budget :: "'k \<Rightarrow> int \<Rightarrow> real \<Rightarrow> 'k call list \<Rightarrow> bool" where
  "same_budget k m w calls =
     list_all (\<lambda>c. call_ip c \<noteq> k \<or> (call_max c = m \<and> call_window c = w)) calls"

text \<open>The number of instants of a list inside a closed interval.\<close>

definition count_in :: "real \<Rightarrow> real \<Rightarrow> real list \<Rightarrow> int" where
  "count_in a b tss = int (length (filter (\<lambda>t. a \<le> t \<and> t \<le> b) tss))"

text \<open>Whether the cleanup is due at the clock reading \<open>t\<close>.\<close>

definition sweep_due :: "real \<Rightarrow> 'k rate_limiter \<Rightarrow> bool" where
  "sweep_due t rl = (t - last_cleanup rl > cleanup_interval rl)"

text \<open>
  The instants of the bucket of \<open>ip\<close> that a call counts: those newer than
  \<open>now - w\<close> that the cleanup of the same call, when it is due, has not removed.
\<close>

definition surviving :: "real \<Rightarrow> real \<Rightarrow> real \<Rightarrow> 'k rate_limiter \<Rightarrow> 'k \<Rightarrow> real list" where
  "surviving t_sweep now w rl ip =
     filter (\<lambda>ts. ts > now - w \<and> (sweep_due t_sweep rl \<longrightarrow> ts > t_sweep - 3600))
       (bucket_of rl ip)"

text \<open>The bucket of \<open>k\<close> as the cleanup at \<open>t_sweep\<close> leaves it.\<close>

definition swept :: "real \<Rightarrow> 'k rate_limiter \<Rightarrow> 'k \<Rightarrow> real list" where
  "swept t_sweep rl k =
     (if sweep_due t_sweep rl then filter (\<lambda>ts. ts > t_sweep - 3600) (bucket_of rl k)
      else bucket_of rl k)"

text \<open>Concrete limiters and runs for the evaluations below.\<close>

definition rl_two :: "string rate_limiter" where
  "rl_two = \<lparr>requests = [''k'' \<mapsto> [10, 20]], cleanup_interval = 300, last_cleanup = 0\<rparr>"

definition long_window_calls :: "string call list" where
  "long_window_calls =
     [\<lparr>call_sweep = 0, call_now = 0, call_ip = ''k'', call_max = 1, call_window = 7200\<rparr>,
      \<lparr>call_sweep = 4000, call_now = 4000, call_ip = ''k'', call_max = 1, call_window = 7200\<rparr>]"

definition short_window_calls :: "string call list" where
  "short_window_calls =
     [\<lparr>call_sweep = 0, call_now = 0, call_ip = ''k'', call_max = 1, call_window = 300\<rparr>,
      \<lparr>call_sweep = 100, call_now = 100, call_ip = ''k'', call_max = 1, call_window = 300\<rparr>,
      \<lparr>call_sweep = 100, call_now = 100, call_ip = ''j'', call_max = 5, call_window = 9000\<rparr>,
      \<lparr>call_sweep = 300, call_now = 300, call_ip = ''k'', call_max = 1, call_window = 300\<rparr>]"

subsection \<open>Buckets after the cleanup and after a call\<close>

lemma bucket_of_sweep:
  "bucket_of (rl\<lparr>requests := (\<lambda>ip. sweep_bucket c (requests rl ip)), last_cleanup := t\<rparr>) k
     = filter (\<lambda>ts. ts > c) (bucket_of rl k)"
  by (simp add: bucket_of_def sweep_bucket_def Let_def split: option.splits)

lemma bucket_of_cleanup:
  "bucket_of (cleanup_old_requests t rl) k = swept t rl k"
  by (simp add: cleanup_old_requests_def sweep_due_def swept_def Let_def bucket_of_sweep)

lemma bucket_of_upd:
  "bucket_of (rl\<lparr>requests := (requests rl)(ip \<mapsto> v)\<rparr>) k = (if k = ip then v else bucket_of rl k)"
  by (simp add: bucket_of_def)

lemma surviving_swept:
  "filter (\<lambda>ts. ts > now - w) (swept t rl ip) = surviving t now w rl ip"
  by (auto simp: surviving_def swept_def intro!: filter_cong)

lemma surviving_plain:
  assumes "w \<le> 3600" "t \<le> now"
  shows "surviving t now w rl ip = filter (\<lambda>ts. ts > now - w) (bucket_of rl ip)"
  using assms by (auto simp: surviving_def intro!: filter_cong)

lemma result_of_call:
  "fst (is_rate_limited t now ip m w rl) =
     (if m \<le> int (length (surviving t now w rl ip))
      then (True, m - int (length (surviving t now w rl ip)))
      else (False, m - int (length (surviving t now w rl ip)) - 1))"
proof -
  have "fst (is_rate_limited t now ip m w rl) =
     (if m \<le> int (length (filter (\<lambda>ts. ts > now - w) (bucket_of (cleanup_old_requests t rl) ip)))
      then (True, m - int (length (filter (\<lambda>ts. ts > now - w) (bucket_of (cleanup_old_requests t rl) ip))))
      else (False, m - int (length (filter (\<lambda>ts. ts > now - w) (bucket_of (cleanup_old_requests t rl) ip))) - 1))"
    by (cases "requests (cleanup_old_requests t rl) ip")
       (simp_all add: is_rate_limited_def Let_def bucket_of_def)
  then show ?thesis by (simp only: bucket_of_cleanup surviving_swept)
qed

lemma limited_iff:
  "fst (fst (is_rate_limited t now ip m w rl)) \<longleftrightarrow> m \<le> int (length (surviving t now w rl ip))"
  by (simp add: result_of_call)

lemma bucket_after:
  "bucket_of (snd (is_rate_limited t now ip m w rl)) k =
     (if k = ip \<and> \<not> m \<le> int (length (surviving t now w rl ip))
      then surviving t now w rl ip @ [now]
      else swept t rl k)"
proof -
  have "bucket_of (snd (is_rate_limited t now ip m w rl)) k =
     (if k = ip \<and> \<not> m \<le> int (length (filter (\<lambda>ts. ts > now - w) (bucket_of (cleanup_old_requests t rl) ip)))
      then filter (\<lambda>ts. ts > now - w) (bucket_of (cleanup_old_requests t rl) ip) @ [now]
      else bucket_of (cleanup_old_requests t rl) k)"
    by (cases "requests (cleanup_old_requests t rl) ip")
       (simp_all add: is_rate_limited_def Let_def bucket_of_def)
  then show ?thesis by (simp only: bucket_of_cleanup surviving_swept)
qed

lemma state_after_denied:
  assumes "fst (fst (is_rate_limited t now ip m w rl))"
  shows "snd (is_rate_limited t now ip m w rl) =
           (if requests (cleanup_old_requests t rl) ip = None
            then (cleanup_old_requests t rl)
                   \<lparr>requests := (requests (cleanup_old_requests t rl))(ip \<mapsto> [])\<rparr>
            else cleanup_old_requests t rl)"
  using assms
  by (cases "requests (cleanup_old_requests t rl) ip")
     (auto simp: is_rate_limited_def Let_def split: if_splits)

lemma denied_without_bucket:
  assumes "fst (fst (is_rate_limited t now ip m w rl))"
    and "requests (cleanup_old_requests t rl) ip = None"
  shows "m \<le> 0"
  using assms by (simp add: is_rate_limited_def Let_def bucket_of_def split: if_splits)

subsection \<open>The decision of one call\<close>

text \<open>
  C4, as the code has it. A call counts the instants of the key's bucket that are newer
  than \<open>now - window_seconds\<close> (an instant exactly \<open>window_seconds\<close> old is dropped too)
  and that the cleanup of the same call has kept; with \<open>n\<close> such instants and
  \<open>n \<ge> max_requests\<close> it denies and reports \<open>max_requests - n\<close>, which is never positive
  and is not clamped at zero; otherwise it admits, the bucket becomes the counted
  instants followed by \<open>now\<close>, and it reports \<open>max_requests - n - 1\<close>. Every other bucket
  is as the cleanup leaves it. For a window of at most 3600 seconds and a clock that
  does not go back between the two readings, the counted instants are just the ones
  of the bucket newer than \<open>now - window_seconds\<close>.
\<close>

theorem admit_decision:
  assumes "n = int (length (surviving t now w rl ip))"
  shows "fst (is_rate_limited t now ip m w rl) =
           (if n \<ge> m then (True, m - n) else (False, m - n - 1))
       \<and> bucket_of (snd (is_rate_limited t now ip m w rl)) ip =
           (if n \<ge> m then swept t rl ip else surviving t now w rl ip @ [now])
       \<and> (\<forall>k. k \<noteq> ip \<longrightarrow> bucket_of (snd (is_rate_limited t now ip m w rl)) k = swept t rl k)
       \<and> (w \<le> 3600 \<and> t \<le> now \<longrightarrow>
            surviving t now w rl ip = filter (\<lambda>ts. ts > now - w) (bucket_of rl ip))"
  using assms by (simp add: result_of_call bucket_after surviving_plain)

theorem admit_decision_witness:
  "fst (is_rate_limited 30 30 ''k'' 1 300 rl_two) = (True, -1)
     \<and> bucket_of (snd (is_rate_limited 30 30 ''k'' 1 300 rl_two)) ''k'' = [10, 20]
     \<and> fst (is_rate_limited 30 30 ''k'' 3 300 rl_two) = (False, 0)
     \<and> bucket_of (snd (is_rate_limited 30 30 ''k'' 3 300 rl_two)) ''k'' = [10, 20, 30]"
proof -
  have n: "(2::int) = int (length (surviving 30 30 300 rl_two ''k''))"
    by (simp add: surviving_def sweep_due_def rl_two_def bucket_of_def)
  show ?thesis
    using admit_decision [OF n, of 1] admit_decision [OF n, of 3]
    by (simp add: surviving_def swept_def sweep_due_def rl_two_def bucket_of_def)
qed

text \<open>
  The claim as written fails on the reported remainder of a denied call: with two
  recent instants and a budget of one the call reports \<open>-1\<close>, and
  \<open>max(0, 1 - 2)\<close> is \<open>0\<close>.
\<close>

theorem admit_remaining_counterexample:
  "fst (is_rate_limited 30 30 ''k'' 1 300 rl_two) = (True, -1)
     \<and> filter (\<lambda>ts. \<not> ts < 30 - 300) (bucket_of rl_two ''k'') = [10, 20]
     \<and> max 0 (1 - int (length [10 :: real, 20])) \<noteq> -1"
  by (simp add: is_rate_limited_def cleanup_old_requests_def rl_two_def bucket_of_def Let_def)

subsection \<open>A denied call records nothing\<close>

text \<open>
  C10, as the code has it. A call that denies appends no instant to any bucket: every
  bucket holds what the cleanup of the call leaves of it, and the limiter after the
  call is the limiter after that cleanup, but for one case: when the key has no bucket
  (which a denied call meets only with \<open>max_requests \<le> 0\<close>), the call leaves an empty
  bucket for the key behind.
\<close>

theorem denied_call_frame:
  assumes "fst (fst (is_rate_limited t now ip m w rl))"
  shows "(\<forall>k. bucket_of (snd (is_rate_limited t now ip m w rl)) k = swept t rl k)
       \<and> last_cleanup (snd (is_rate_limited t now ip m w rl))
           = last_cleanup (cleanup_old_requests t rl)
       \<and> cleanup_interval (snd (is_rate_limited t now ip m w rl))
           = cleanup_interval (cleanup_old_requests t rl)
       \<and> (snd (is_rate_limited t now ip m w rl) = cleanup_old_requests t rl
          \<or> (m \<le> 0 \<and> requests (cleanup_old_requests t rl) ip = None
              \<and> snd (is_rate_limited t now ip m w rl) =
                  (cleanup_old_requests t rl)
                    \<lparr>requests := (requests (cleanup_old_requests t rl))(ip \<mapsto> [])\<rparr>))"
proof -
  have lim: "m \<le> int (length (surviving t now w rl ip))"
    using assms by (simp add: limited_iff)
  have "\<forall>k. bucket_of (snd (is_rate_limited t now ip m w rl)) k = swept t rl k"
    using lim by (simp add: bucket_after)
  moreover have "last_cleanup (snd (is_rate_limited t now ip m w rl))
           = last_cleanup (cleanup_old_requests t rl)"
    and "cleanup_interval (snd (is_rate_limited t now ip m w rl))
           = cleanup_interval (cleanup_old_requests t rl)"
    by (simp_all add: state_after_denied [OF assms])
  moreover have "snd (is_rate_limited t now ip m w rl) = cleanup_old_requests t rl
          \<or> (m \<le> 0 \<and> requests (cleanup_old_requests t rl) ip = None
              \<and> snd (is_rate_limited t now ip m w rl) =
                  (cleanup_old_requests t rl)
                    \<lparr>requests := (requests (cleanup_old_requests t rl))(ip \<mapsto> [])\<rparr>)"
    using state_after_denied [OF assms] denied_without_bucket [OF assms] by simp
  ultimately show ?thesis by simp
qed

theorem denied_call_frame_witness:
  "fst (fst (is_rate_limited 400 400 ''k'' 2 1000 rl_two))
     \<and> bucket_of (snd (is_rate_limited 400 400 ''k'' 2 1000 rl_two)) ''k'' = [10, 20]
     \<and> last_cleanup (snd (is_rate_limited 400 400 ''k'' 2 1000 rl_two)) = 400"
proof -
  have d: "fst (fst (is_rate_limited 400 400 ''k'' 2 1000 rl_two))"
    by (simp add: is_rate_limited_def cleanup_old_requests_def sweep_bucket_def rl_two_def
        bucket_of_def Let_def)
  have "bucket_of (snd (is_rate_limited 400 400 ''k'' 2 1000 rl_two)) ''k'' = swept 400 rl_two ''k''"
    and "last_cleanup (snd (is_rate_limited 400 400 ''k'' 2 1000 rl_two))
           = last_cleanup (cleanup_old_requests 400 rl_two)"
    using denied_call_frame [OF d] by blast+
  moreover have "swept 400 rl_two ''k'' = [10, 20]"
    by (simp add: swept_def sweep_due_def rl_two_def bucket_of_def)
  moreover have "last_cleanup (cleanup_old_requests 400 rl_two) = 400"
    by (simp add: cleanup_old_requests_def rl_two_def)
  ultimately show ?thesis using d by simp
qed

text \<open>
  The claim as written fails where the key has no bucket: a call with
  \<open>max_requests = 0\<close> on a fresh limiter denies and leaves the key with an empty
  bucket, which the cleanup alone does not create.
\<close>

theorem denied_call_counterexample:
  "fst (fst (is_rate_limited 0 0 ''k'' 0 300 (init_rate_limiter 0)))
     \<and> requests (snd (is_rate_limited 0 0 ''k'' 0 300 (init_rate_limiter 0))) ''k'' = Some []
     \<and> requests (cleanup_old_requests 0 (init_rate_limiter 0)) ''k'' = None"
  by (simp add: is_rate_limited_def cleanup_old_requests_def init_rate_limiter_def
      bucket_of_def Let_def)

subsection \<open>The sliding-window invariant\<close>

lemma agree_swept:
  assumes agree: "\<forall>c\<ge>T - w. filter (\<lambda>t. c < t) (bucket_of rl k) = filter (\<lambda>t. c < t) A"
    and "T \<le> t1" and "w \<le> 3600"
  shows "\<forall>c\<ge>t1 - w. filter (\<lambda>t. c < t) (swept t1 rl k) = filter (\<lambda>t. c < t) A"
proof (intro allI impI)
  fix c assume c: "t1 - w \<le> c"
  have "filter (\<lambda>t. c < t) (filter (\<lambda>ts. ts > t1 - 3600) (bucket_of rl k))
          = filter (\<lambda>t. c < t) (bucket_of rl k)"
    using c \<open>w \<le> 3600\<close> by (auto intro!: filter_cong)
  moreover have "filter (\<lambda>t. c < t) (bucket_of rl k) = filter (\<lambda>t. c < t) A"
    using agree c \<open>T \<le> t1\<close> by simp
  ultimately show "filter (\<lambda>t. c < t) (swept t1 rl k) = filter (\<lambda>t. c < t) A"
    by (simp add: swept_def)
qed

lemma count_in_append: "count_in a b (xs @ ys) = count_in a b xs + count_in a b ys"
  by (simp add: count_in_def)

lemma count_in_le_recent:
  assumes "t2 - w < a"
  shows "count_in a b A \<le> int (length (filter (\<lambda>t. t2 - w < t) A))"
proof -
  have "filter (\<lambda>t. a \<le> t \<and> t \<le> b) A
          = filter (\<lambda>t. a \<le> t \<and> t \<le> b) (filter (\<lambda>t. t2 - w < t) A)"
    using assms by (auto intro!: filter_cong)
  then have "length (filter (\<lambda>t. a \<le> t \<and> t \<le> b) A) \<le> length (filter (\<lambda>t. t2 - w < t) A)"
    by (metis length_filter_le)
  then show ?thesis by (simp add: count_in_def)
qed

lemma window_step:
  assumes win: "\<forall>a b. b - a < w \<longrightarrow> count_in a b A \<le> max 0 m"
    and few: "int (length (filter (\<lambda>t. t2 - w < t) A)) < m"
  shows "\<forall>a b. b - a < w \<longrightarrow> count_in a b (A @ [t2]) \<le> max 0 m"
proof (intro allI impI)
  fix a b :: real assume ab: "b - a < w"
  show "count_in a b (A @ [t2]) \<le> max 0 m"
  proof (cases "a \<le> t2 \<and> t2 \<le> b")
    case True
    then have "t2 - w < a" using ab by simp
    then have "count_in a b A < m" using count_in_le_recent [of t2 w a b A] few by simp
    then show ?thesis using True by (simp add: count_in_append) (simp add: count_in_def)
  next
    case False
    then have "count_in a b (A @ [t2]) = count_in a b A"
      by (auto simp: count_in_def)
    then show ?thesis using win ab by simp
  qed
qed

text \<open>
  The invariant of a run, for the key \<open>k\<close> and a window of at most 3600 seconds: the
  bucket and the list \<open>A\<close> of the instants admitted so far hold the same instants newer
  than any bound from \<open>T - w\<close> on (\<open>T\<close> the last clock reading), and no closed interval
  shorter than \<open>w\<close> holds more than \<open>max 0 m\<close> instants of \<open>A\<close>.
\<close>

lemma admissions_window:
  assumes "w \<le> 3600"
  shows "clock_monotone T calls \<Longrightarrow> same_budget k m w calls \<Longrightarrow>
     \<forall>c\<ge>T - w. filter (\<lambda>t. c < t) (bucket_of rl k) = filter (\<lambda>t. c < t) A \<Longrightarrow>
     \<forall>a b. b - a < w \<longrightarrow> count_in a b A \<le> max 0 m \<Longrightarrow>
     \<forall>a b. b - a < w \<longrightarrow> count_in a b (A @ admissions k rl calls) \<le> max 0 m"
proof (induction calls arbitrary: T rl A)
  case Nil
  then show ?case by simp
next
  case (Cons c cs)
  let ?t1 = "call_sweep c" and ?t2 = "call_now c"
  let ?R = "do_call c rl"
  from Cons.prems(1) have T: "T \<le> ?t1" "?t1 \<le> ?t2" and mono: "clock_monotone ?t2 cs"
    by simp_all
  from Cons.prems(2) have same: "same_budget k m w cs"
    and bud: "call_ip c = k \<Longrightarrow> call_max c = m \<and> call_window c = w"
    by (auto simp: same_budget_def)
  have agree1: "\<forall>x\<ge>?t1 - w. filter (\<lambda>t. x < t) (swept ?t1 rl k) = filter (\<lambda>t. x < t) A"
    using agree_swept [OF Cons.prems(3) T(1) assms] .
  show ?case
  proof (cases "call_ip c = k \<and> \<not> fst (fst ?R)")
    case True
    then have ip: "call_ip c = k" and adm: "\<not> fst (fst ?R)" by simp_all
    have mw: "call_max c = m" "call_window c = w" using bud ip by simp_all
    have rec: "surviving ?t1 ?t2 w rl k = filter (\<lambda>t. ?t2 - w < t) A"
      using agree1 T(2) surviving_swept [of ?t2 w ?t1 rl k] by simp
    have few: "int (length (filter (\<lambda>t. ?t2 - w < t) A)) < m"
      using adm rec by (simp add: do_call_def limited_iff ip mw)
    have b': "bucket_of (snd ?R) k = filter (\<lambda>t. ?t2 - w < t) A @ [?t2]"
      using few rec by (simp add: do_call_def bucket_after ip mw)
    have agree2: "\<forall>x\<ge>?t2 - w. filter (\<lambda>t. x < t) (bucket_of (snd ?R) k)
                    = filter (\<lambda>t. x < t) (A @ [?t2])"
      by (auto simp: b' intro!: filter_cong)
    have win2: "\<forall>a b. b - a < w \<longrightarrow> count_in a b (A @ [?t2]) \<le> max 0 m"
      using window_step [OF Cons.prems(4) few] .
    have "\<forall>a b. b - a < w \<longrightarrow> count_in a b ((A @ [?t2]) @ admissions k (snd ?R) cs) \<le> max 0 m"
      using Cons.IH [OF mono same agree2 win2] .
    moreover have "admissions k rl (c # cs) = ?t2 # admissions k (snd ?R) cs"
      using True by simp
    ultimately show ?thesis by simp
  next
    case False
    have b': "bucket_of (snd ?R) k = swept ?t1 rl k"
      using False by (auto simp: do_call_def bucket_after limited_iff)
    have agree2: "\<forall>x\<ge>?t2 - w. filter (\<lambda>t. x < t) (bucket_of (snd ?R) k) = filter (\<lambda>t. x < t) A"
      using agree1 T(2) by (simp add: b')
    have "\<forall>a b. b - a < w \<longrightarrow> count_in a b (A @ admissions k (snd ?R) cs) \<le> max 0 m"
      using Cons.IH [OF mono same agree2 Cons.prems(4)] .
    moreover have "admissions k rl (c # cs) = admissions k (snd ?R) cs"
      using False by auto
    ultimately show ?thesis by simp
  qed
qed

text \<open>From closed intervals shorter than \<open>w\<close> to the half-open intervals of length \<open>w\<close>.\<close>

lemma half_open_left:
  assumes win: "\<forall>a b. b - a < w \<longrightarrow> count_in a b xs \<le> max 0 m"
  shows "int (length (filter (\<lambda>t. a < t \<and> t \<le> a + w) xs)) \<le> max 0 m"
proof (cases "filter (\<lambda>t. a < t \<and> t \<le> a + w) xs = []")
  case True
  then show ?thesis by simp
next
  case False
  define S where "S = set (filter (\<lambda>t. a < t \<and> t \<le> a + w) xs)"
  have fin: "finite S" by (simp add: S_def)
  have ne: "S \<noteq> {}" using False unfolding S_def by (simp only: set_empty not_False_eq_True)
  define lo where "lo = Min S"
  have "lo \<in> S" unfolding lo_def using fin ne by (rule Min_in)
  then have lo: "a < lo" by (simp add: S_def)
  have least: "\<And>t. t \<in> S \<Longrightarrow> lo \<le> t" unfolding lo_def using fin by simp
  have "filter (\<lambda>t. a < t \<and> t \<le> a + w) xs = filter (\<lambda>t. lo \<le> t \<and> t \<le> a + w) xs"
    using lo least by (intro filter_cong) (auto simp: S_def)
  then have "int (length (filter (\<lambda>t. a < t \<and> t \<le> a + w) xs)) = count_in lo (a + w) xs"
    by (simp add: count_in_def)
  moreover have "count_in lo (a + w) xs \<le> max 0 m" using win lo by simp
  ultimately show ?thesis by simp
qed

lemma half_open_right:
  assumes win: "\<forall>a b. b - a < w \<longrightarrow> count_in a b xs \<le> max 0 m"
  shows "int (length (filter (\<lambda>t. a \<le> t \<and> t < a + w) xs)) \<le> max 0 m"
proof (cases "filter (\<lambda>t. a \<le> t \<and> t < a + w) xs = []")
  case True
  then show ?thesis by simp
next
  case False
  define S where "S = set (filter (\<lambda>t. a \<le> t \<and> t < a + w) xs)"
  have fin: "finite S" by (simp add: S_def)
  have ne: "S \<noteq> {}" using False unfolding S_def by (simp only: set_empty not_False_eq_True)
  define hi where "hi = Max S"
  have "hi \<in> S" unfolding hi_def using fin ne by (rule Max_in)
  then have hi: "hi < a + w" by (simp add: S_def)
  have greatest: "\<And>t. t \<in> S \<Longrightarrow> t \<le> hi" unfolding hi_def using fin by simp
  have "filter (\<lambda>t. a \<le> t \<and> t < a + w) xs = filter (\<lambda>t. a \<le> t \<and> t \<le> hi) xs"
    using hi greatest by (intro filter_cong) (auto simp: S_def)
  then have "int (length (filter (\<lambda>t. a \<le> t \<and> t < a + w) xs)) = count_in a hi xs"
    by (simp add: count_in_def)
  moreover have "count_in a hi xs \<le> max 0 m" using win hi by simp
  ultimately show ?thesis by simp
qed

text \<open>
  C1, as the code has it. Run any calls, on any keys, from a fresh limiter, with a clock
  that never goes back, every call on the key \<open>k\<close> with the budget \<open>(m, w)\<close> and
  \<open>w\<close> at most the 3600 seconds that the cleanup retains. Then every half-open interval
  of length \<open>w\<close>, open at either end, holds at most \<open>max 0 m\<close> of the instants at which
  a call on \<open>k\<close> was admitted.
\<close>

theorem sliding_window_invariant:
  assumes "w \<le> 3600" and "clock_monotone t0 calls" and "same_budget k m w calls"
  shows "int (length (filter (\<lambda>t. a < t \<and> t \<le> a + w)
                 (admissions k (init_rate_limiter t0) calls))) \<le> max 0 m
       \<and> int (length (filter (\<lambda>t. a \<le> t \<and> t < a + w)
                 (admissions k (init_rate_limiter t0) calls))) \<le> max 0 m"
proof -
  have "\<forall>c\<ge>t0 - w. filter (\<lambda>t. c < t) (bucket_of (init_rate_limiter t0) k)
          = filter (\<lambda>t. c < t) []"
    by (simp add: bucket_of_def init_rate_limiter_def)
  moreover have "\<forall>a b. b - a < w \<longrightarrow> count_in a b [] \<le> max 0 m"
    by (simp add: count_in_def)
  ultimately have
    "\<forall>a b. b - a < w \<longrightarrow> count_in a b ([] @ admissions k (init_rate_limiter t0) calls) \<le> max 0 m"
    using admissions_window [OF assms(1) assms(2) assms(3)] by blast
  then have win:
    "\<forall>a b. b - a < w \<longrightarrow> count_in a b (admissions k (init_rate_limiter t0) calls) \<le> max 0 m"
    by simp
  show ?thesis using half_open_left [OF win] half_open_right [OF win] by simp
qed

lemma short_window_run:
  "admissions ''k'' (init_rate_limiter 0) short_window_calls = [0, 300]"
  by (simp add: short_window_calls_def do_call_def is_rate_limited_def cleanup_old_requests_def
      init_rate_limiter_def bucket_of_def sweep_bucket_def Let_def)

theorem sliding_window_invariant_witness:
  "clock_monotone 0 short_window_calls
     \<and> same_budget ''k'' 1 300 short_window_calls
     \<and> admissions ''k'' (init_rate_limiter 0) short_window_calls = [0, 300]
     \<and> int (length (filter (\<lambda>t. 0 < t \<and> t \<le> 0 + 300)
              (admissions ''k'' (init_rate_limiter 0) short_window_calls))) \<le> max 0 1"
proof -
  have w: "(300::real) \<le> 3600" by simp
  have c: "clock_monotone 0 short_window_calls" by (simp add: short_window_calls_def)
  have b: "same_budget ''k'' 1 300 short_window_calls"
    by (simp add: short_window_calls_def same_budget_def)
  show ?thesis
    using c b short_window_run sliding_window_invariant [OF w c b, of 0] by simp
qed

text \<open>
  The claim as written fails for a window longer than the hour the cleanup retains:
  with one request per 7200 seconds allowed, a request at 0 and a request at 4000 are
  both admitted, since the cleanup of the second call has dropped the first instant.
\<close>

theorem sliding_window_counterexample:
  "clock_monotone 0 long_window_calls
     \<and> same_budget ''k'' 1 7200 long_window_calls
     \<and> admissions ''k'' (init_rate_limiter 0) long_window_calls = [0, 4000]
     \<and> \<not> int (length (filter (\<lambda>t. - 1 < t \<and> t \<le> - 1 + 7200)
                (admissions ''k'' (init_rate_limiter 0) long_window_calls))) \<le> 1"
  by (simp add: long_window_calls_def same_budget_def do_call_def is_rate_limited_def
      cleanup_old_requests_def init_rate_limiter_def bucket_of_def sweep_bucket_def Let_def)

text \<open>
  At the boundary the window is open: two requests exactly \<open>window_seconds\<close> apart are
  both admitted under a budget of one, so a closed interval of length
  \<open>window_seconds\<close> can hold one admission more.
\<close>

lemma closed_window_boundary:
  "admissions ''k'' (init_rate_limiter 0) short_window_calls = [0, 300]
     \<and> int (length (filter (\<lambda>t. 0 \<le> t \<and> t \<le> 0 + 300) [0, 300 :: real])) = 2"
  using short_window_run by simp

section \<open>The CSRF token store (class CSRFProtection)\<close>

text \<open>
  \<^verbatim>\<open>CSRFProtection.tokens\<close> maps a user id to a dictionary from token to the instant of
  its issue. The token that \<^verbatim>\<open>generate_token\<close> computes (the SHA-256 hex digest of the
  user id, the clock and a random UUID) is an argument of the model, as is each
  reading of the clock.
\<close>

type_synonym token_store = "string \<rightharpoonup> (string \<rightharpoonup> real)"

text \<open>
  \<^verbatim>\<open>generate_token(user_id)\<close>: the user's tokens with \<^verbatim>\<open>now - ts < 3600\<close> are kept (a
  user without tokens gets an empty dictionary), the new token is stored with the
  instant \<open>now\<close>, and the token is returned.
\<close>

definition generate_token :: "real \<Rightarrow> string \<Rightarrow> string \<Rightarrow> token_store \<Rightarrow> string \<times> token_store" where
  "generate_token now user_id token tokens =
     (let kept = (case tokens user_id of
                    Some m \<Rightarrow> (\<lambda>t. case m t of
                                      Some ts \<Rightarrow> if now - ts < 3600 then Some ts else None
                                    | None \<Rightarrow> None)
                  | None \<Rightarrow> Map.empty)
      in (token, tokens(user_id \<mapsto> kept(token \<mapsto> now))))"

text \<open>
  \<^verbatim>\<open>validate_token(user_id, token)\<close>: false for an empty user id or token, for a user
  without tokens and for a token the user does not hold; a token older than 3600
  seconds is deleted and refused; any other token is deleted and accepted.
\<close>

definition validate_token :: "real \<Rightarrow> string \<Rightarrow> string \<Rightarrow> token_store \<Rightarrow> bool \<times> token_store" where
  "validate_token now user_id token tokens =
     (if user_id = [] \<or> token = [] then (False, tokens)
      else case tokens user_id of
             None \<Rightarrow> (False, tokens)
           | Some m \<Rightarrow>
               (case m token of
                  None \<Rightarrow> (False, tokens)
                | Some token_time \<Rightarrow>
                    if now - token_time > 3600
                    then (False, tokens(user_id \<mapsto> m(token := None)))
                    else (True, tokens(user_id \<mapsto> m(token := None)))))"

text \<open>Whether the store holds the token for the user.\<close>

definition holds_token :: "token_store \<Rightarrow> string \<Rightarrow> string \<Rightarrow> bool" where
  "holds_token tokens user_id token =
     (case tokens user_id of None \<Rightarrow> False | Some m \<Rightarrow> m token \<noteq> None)"

text \<open>
  A principal is identified by a non-empty id (the ids of the users table are UUID
  strings), and an issued token is a non-empty string (a hex digest has 64 characters).
\<close>

definition is_principal :: "string \<Rightarrow> bool" where
  "is_principal p = (p \<noteq> [])"

text \<open>
  C3. For a principal \<open>p\<close>: when \<^verbatim>\<open>generate_token\<close> has issued the token \<open>t\<close>, a first
  \<^verbatim>\<open>validate_token(p, t)\<close> at most 3600 seconds later returns true and removes the token
  from the store, and a second \<^verbatim>\<open>validate_token(p, t)\<close>, at any time, returns false.
\<close>

theorem csrf_single_use:
  assumes "is_principal p" and "fresh \<noteq> []"
    and "generate_token t0 p fresh store = (t, s1)"
    and "t1 - t0 \<le> 3600"
  shows "holds_token s1 p t
       \<and> fst (validate_token t1 p t s1)
       \<and> \<not> holds_token (snd (validate_token t1 p t s1)) p t
       \<and> \<not> fst (validate_token t2 p t (snd (validate_token t1 p t s1)))"
  using assms
  by (auto simp: generate_token_def validate_token_def holds_token_def is_principal_def Let_def)

theorem csrf_single_use_witness:
  "is_principal ''u1''
     \<and> generate_token 0 ''u1'' ''ab12'' Map.empty = (''ab12'', snd (generate_token 0 ''u1'' ''ab12'' Map.empty))
     \<and> fst (validate_token 100 ''u1'' ''ab12'' (snd (generate_token 0 ''u1'' ''ab12'' Map.empty)))
     \<and> \<not> fst (validate_token 200 ''u1'' ''ab12''
              (snd (validate_token 100 ''u1'' ''ab12'' (snd (generate_token 0 ''u1'' ''ab12'' Map.empty)))))"
proof -
  have p: "is_principal ''u1''" by (simp add: is_principal_def)
  have f: "''ab12'' \<noteq> []" by simp
  have g: "generate_token 0 ''u1'' ''ab12'' Map.empty
             = (''ab12'', snd (generate_token 0 ''u1'' ''ab12'' Map.empty))"
    by (simp add: generate_token_def)
  have a: "(100::real) - 0 \<le> 3600" by simp
  show ?thesis using p g csrf_single_use [OF p f g a, of 200] by simp
qed


section \<open>The content validator (class SecurityValidator)\<close>

subsection \<open>Characters\<close>

text \<open>
  A Python string is a sequence of code points; the model has the code points below
  256, one \<^typ>\<open>char\<close> each. \<^verbatim>\<open>ord\<close>, \<^verbatim>\<open>str.isspace\<close> (also the class \<^verbatim>\<open>\s\<close>), the
  decimal digits (\<^verbatim>\<open>\d\<close>), the word characters (\<^verbatim>\<open>\w\<close>: alphanumeric or underscore)
  and \<^verbatim>\<open>str.lower\<close> are those of Python 3 on that range.
\<close>

definition py_ord :: "char \<Rightarrow> nat" where
  "py_ord c = of_char c"

definition is_space :: "char \<Rightarrow> bool" where
  "is_space c = ((9 \<le> py_ord c \<and> py_ord c \<le> 13) \<or> (28 \<le> py_ord c \<and> py_ord c \<le> 32)
                 \<or> py_ord c = 133 \<or> py_ord c = 160)"

definition is_digit :: "char \<Rightarrow> bool" where
  "is_digit c = (48 \<le> py_ord c \<and> py_ord c \<le> 57)"

definition in_ranges :: "nat \<Rightarrow> (nat \<times> nat) list \<Rightarrow> bool" where
  "in_ranges n rs = list_ex (\<lambda>r. fst r \<le> n \<and> n \<le> snd r) rs"

definition is_word :: "char \<Rightarrow> bool" where
  "is_word c = in_ranges (py_ord c)
     [(48, 57), (65, 90), (95, 95), (97, 122), (170, 170), (178, 179), (181, 181),
      (185, 186), (188, 190), (192, 214), (216, 246), (248, 255)]"

definition lower_char :: "char \<Rightarrow> char" where
  "lower_char c =
     (if in_ranges (py_ord c) [(65, 90), (192, 214), (216, 222)] then char_of (py_ord c + 32) else c)"

definition lower :: "string \<Rightarrow> string" where
  "lower s = map lower_char s"

subsection \<open>Regular expressions\<close>

text \<open>
  The patterns of the source use literals, the dot (any character but a newline),
  classes and negated classes of character ranges, \<^verbatim>\<open>\s\<close>, \<^verbatim>\<open>\d\<close>, the word boundary
  \<^verbatim>\<open>\b\<close>, concatenation, alternation, repetition, and one back reference,
  \<^verbatim>\<open>(.)\1{n,}\<close>, which \<open>SameRun n\<close> stands for: a character other than a newline
  followed by at least \<open>n\<close> copies of itself.
\<close>

type_synonym pos = "char option \<times> string"

datatype rx =
    Lit char
  | Dot
  | OneOf "(char \<times> char) list"
  | NoneOf "(char \<times> char) list"
  | Space
  | Digit
  | WordB
  | Eps
  | Cat rx rx
  | Or rx rx
  | Star rx
  | SameRun nat

text \<open>
  A position is the character before it (none at the start of the text) and the rest
  of the text. \<open>ends r p\<close> lists the positions at which a match of \<open>r\<close> that starts at
  \<open>p\<close> can end (for \<open>SameRun\<close>, the end of the longest match only). An iteration of a
  starred pattern that consumes nothing reaches no new position, so \<open>star_ends\<close> follows
  only the iterations that consume a character, and the length of the rest of the text
  bounds their number. \<^verbatim>\<open>re.search\<close> asks for a match at any start position.
\<close>

definition in_class :: "char \<Rightarrow> (char \<times> char) list \<Rightarrow> bool" where
  "in_class c rs = list_ex (\<lambda>r. py_ord (fst r) \<le> py_ord c \<and> py_ord c \<le> py_ord (snd r)) rs"

definition step1 :: "(char \<Rightarrow> bool) \<Rightarrow> pos \<Rightarrow> pos list" where
  "step1 P p = (case snd p of [] \<Rightarrow> [] | c # cs \<Rightarrow> if P c then [(Some c, cs)] else [])"

definition word_at :: "char option \<Rightarrow> bool" where
  "word_at x = (case x of None \<Rightarrow> False | Some c \<Rightarrow> is_word c)"

definition next_of :: "string \<Rightarrow> char option" where
  "next_of s = (case s of [] \<Rightarrow> None | c # cs \<Rightarrow> Some c)"

fun star_ends :: "(pos \<Rightarrow> pos list) \<Rightarrow> nat \<Rightarrow> pos \<Rightarrow> pos list" where
  "star_ends f 0 p = [p]"
| "star_ends f (Suc n) p =
     p # concat (map (star_ends f n) (filter (\<lambda>q. length (snd q) < length (snd p)) (f p)))"

primrec ends :: "rx \<Rightarrow> pos \<Rightarrow> pos list" where
  "ends (Lit a) p = step1 (\<lambda>c. c = a) p"
| "ends Dot p = step1 (\<lambda>c. c \<noteq> CHR 0x0A) p"
| "ends (OneOf rs) p = step1 (\<lambda>c. in_class c rs) p"
| "ends (NoneOf rs) p = step1 (\<lambda>c. \<not> in_class c rs) p"
| "ends Space p = step1 is_space p"
| "ends Digit p = step1 is_digit p"
| "ends WordB p = (if word_at (fst p) \<noteq> word_at (next_of (snd p)) then [p] else [])"
| "ends Eps p = [p]"
| "ends (Cat a b) p = concat (map (ends b) (ends a p))"
| "ends (Or a b) p = ends a p @ ends b p"
| "ends (Star r) p = star_ends (ends r) (length (snd p)) p"
| "ends (SameRun n) p =
     (case snd p of
        [] \<Rightarrow> []
      | c # cs \<Rightarrow>
          if c \<noteq> CHR 0x0A \<and> n \<le> length (takeWhile (\<lambda>x. x = c) cs)
          then [(Some c, dropWhile (\<lambda>x. x = c) cs)] else [])"

fun search_from :: "rx \<Rightarrow> char option \<Rightarrow> string \<Rightarrow> bool" where
  "search_from r prev [] = (ends r (prev, []) \<noteq> [])"
| "search_from r prev (c # cs) = (ends r (prev, c # cs) \<noteq> [] \<or> search_from r (Some c) cs)"

definition re_search :: "rx \<Rightarrow> string \<Rightarrow> bool" where
  "re_search r s = search_from r None s"

text \<open>Abbreviations: a sequence, a literal string, an alternation of literal strings,
  \<^verbatim>\<open>r+\<close>, \<^verbatim>\<open>r?\<close> and \<^verbatim>\<open>r{n,}\<close>.\<close>

fun rx_seq :: "rx list \<Rightarrow> rx" where
  "rx_seq [] = Eps"
| "rx_seq [r] = r"
| "rx_seq (r # rs) = Cat r (rx_seq rs)"

definition rx_str :: "string \<Rightarrow> rx" where
  "rx_str s = rx_seq (map Lit s)"

fun rx_alts :: "string list \<Rightarrow> rx" where
  "rx_alts [] = NoneOf [(CHR 0x00, CHR 0xFF)]"
| "rx_alts [s] = rx_str s"
| "rx_alts (s # ss) = Or (rx_str s) (rx_alts ss)"

definition rx_plus :: "rx \<Rightarrow> rx" where
  "rx_plus r = Cat r (Star r)"

definition quote :: rx where
  "quote = OneOf [(CHR 0x27, CHR 0x27), (CHR 0x22, CHR 0x22)]"

definition rx_opt :: "rx \<Rightarrow> rx" where
  "rx_opt r = Or r Eps"

definition rx_at_least :: "nat \<Rightarrow> rx \<Rightarrow> rx" where
  "rx_at_least n r = rx_seq (replicate n r @ [Star r])"

subsection \<open>The injection heuristic\<close>

text \<open>
  \<^verbatim>\<open>check_sql_injection(text)\<close>: false for an empty text; otherwise the text is put in
  lower case and searched for each of the six patterns of \<^verbatim>\<open>sql_patterns\<close>, in the
  order of the source:
  \<^verbatim>\<open>\b(union|select|insert|update|delete|drop|create|alter)\b.*\b(from|into|table|database)\b\<close>,
  \<^verbatim>\<open>['"]\s*(or|and)\s*['"]\s*=\s*['"]\s*['"]\s*\<close>,
  \<^verbatim>\<open>['"]\s*(or|and)\s+\d+\s*=\s*\d+\s*['"]\s*\<close>,
  \<^verbatim>\<open>;\s*(drop|delete|truncate|insert|update)\<close>,
  \<^verbatim>\<open>(exec|execute|sp_|xp_)\<close> and
  \<^verbatim>\<open><script[^>]*>.*</script>\<close>.
\<close>

definition sql_patterns :: "rx list" where
  "sql_patterns =
     [rx_seq [WordB, rx_alts [''union'', ''select'', ''insert'', ''update'', ''delete'', ''drop'',
                        ''create'', ''alter''], WordB, Star Dot, WordB,
           rx_alts [''from'', ''into'', ''table'', ''database''], WordB],
      rx_seq [quote, Star Space, rx_alts [''or'', ''and''], Star Space, quote, Star Space,
           Lit CHR ''='', Star Space, quote, Star Space, quote, Star Space],
      rx_seq [quote, Star Space, rx_alts [''or'', ''and''], rx_plus Space, rx_plus Digit, Star Space,
           Lit CHR ''='', Star Space, rx_plus Digit, Star Space, quote, Star Space],
      rx_seq [Lit CHR '';'', Star Space,
           rx_alts [''drop'', ''delete'', ''truncate'', ''insert'', ''update'']],
      rx_alts [''exec'', ''execute'', ''sp_'', ''xp_''],
      rx_seq [rx_str ''<script'', Star (NoneOf [(CHR ''>'', CHR ''>'')]), Lit CHR ''>'', Star Dot,
           rx_str ''</script>'']]"

definition check_sql_injection :: "string \<Rightarrow> bool" where
  "check_sql_injection text =
     (if text = [] then False
      else list_ex (\<lambda>pattern. re_search pattern (lower text)) sql_patterns)"

subsection \<open>The spam heuristic\<close>

text \<open>
  \<^verbatim>\<open>detect_spam_patterns(text)\<close>, in the same way, with the patterns
  \<^verbatim>\<open>http[s]?://.*\.tk/\<close>, \<^verbatim>\<open>http[s]?://.*\.ml/\<close>,
  \<^verbatim>\<open>(buy|purchase|sale).*(viagra|cialis|cheap)\<close>,
  \<^verbatim>\<open>(win|winner|won).*(money|prize|lottery)\<close>, \<^verbatim>\<open>[a-zA-Z]{50,}\<close> and
  \<^verbatim>\<open>(.)\1{10,}\<close>.
\<close>

definition spam_indicators :: "rx list" where
  "spam_indicators =
     [rx_seq [rx_str ''http'', rx_opt (OneOf [(CHR ''s'', CHR ''s'')]), rx_str ''://'', Star Dot,
              rx_str ''.tk/''],
      rx_seq [rx_str ''http'', rx_opt (OneOf [(CHR ''s'', CHR ''s'')]), rx_str ''://'', Star Dot,
              rx_str ''.ml/''],
      rx_seq [rx_alts [''buy'', ''purchase'', ''sale''], Star Dot,
              rx_alts [''viagra'', ''cialis'', ''cheap'']],
      rx_seq [rx_alts [''win'', ''winner'', ''won''], Star Dot,
              rx_alts [''money'', ''prize'', ''lottery'']],
      rx_at_least 50 (OneOf [(CHR ''a'', CHR ''z''), (CHR ''A'', CHR ''Z'')]),
      SameRun 10]"

definition detect_spam_patterns :: "string \<Rightarrow> bool" where
  "detect_spam_patterns text =
     (if text = [] then False
      else list_ex (\<lambda>pattern. re_search pattern (lower text)) spam_indicators)"

subsection \<open>Sanitization\<close>

text \<open>
  \<^verbatim>\<open>sanitize_input(text, max_length)\<close>: the empty string for an empty text and for a
  text that the injection heuristic flags; otherwise the characters with
  \<^verbatim>\<open>ord(char) >= 32\<close> and the newline, carriage return and tab are kept, every match of
  \<^verbatim>\<open><[^>]*>\<close> is deleted, and the result is \<^verbatim>\<open>text[:max_length].strip()\<close>.

  A match of \<^verbatim>\<open><[^>]*>\<close> starts at a \<^verbatim>\<open><\<close> that has a \<^verbatim>\<open>>\<close> somewhere after it and
  ends at the first such \<^verbatim>\<open>>\<close>; \<^verbatim>\<open>re.sub\<close> deletes the matches from left to right,
  which is \<open>strip_tags\<close>. A slice \<^verbatim>\<open>text[:n]\<close> with a negative \<open>n\<close> drops the last \<open>-n\<close>
  characters.
\<close>

definition printable :: "char \<Rightarrow> bool" where
  "printable c = (py_ord c \<ge> 32 \<or> c = CHR 0x0A \<or> c = CHR 0x0D \<or> c = CHR 0x09)"

function strip_tags :: "string \<Rightarrow> string" where
  "strip_tags [] = []"
| "strip_tags (c # cs) =
     (if c = CHR ''<'' \<and> CHR ''>'' \<in> set cs
      then strip_tags (tl (dropWhile (\<lambda>x. x \<noteq> CHR ''>'') cs))
      else c # strip_tags cs)"
  by pat_completeness auto
termination
proof (relation "measure length")
  fix c :: char and cs :: string
  have "length (tl (dropWhile (\<lambda>x. x \<noteq> CHR ''>'') cs)) \<le> length cs"
    using length_dropWhile_le [of "\<lambda>x. x \<noteq> CHR ''>''" cs] by simp
  then show "(tl (dropWhile (\<lambda>x. x \<noteq> CHR ''>'') cs), c # cs) \<in> measure length"
    by simp
qed simp_all

definition strip :: "string \<Rightarrow> string" where
  "strip s = rev (dropWhile is_space (rev (dropWhile is_space s)))"

definition py_prefix :: "int \<Rightarrow> string \<Rightarrow> string" where
  "py_prefix n s = (if n \<ge> 0 then take (nat n) s else take (nat (int (length s) + n)) s)"

definition sanitize_input :: "string \<Rightarrow> int \<Rightarrow> string" where
  "sanitize_input text max_length =
     (if text = [] then []
      else if check_sql_injection text then []
      else strip (py_prefix max_length (strip_tags (filter printable text))))"

text \<open>The pattern \<^verbatim>\<open><[^>]*>\<close> of the tag removal, for the comparison with \<open>strip_tags\<close>.\<close>

definition tag_rx :: rx where
  "tag_rx = rx_seq [Lit CHR ''<'', Star (NoneOf [(CHR ''>'', CHR ''>'')]), Lit CHR ''>'']"

text \<open>The three inputs of the examples: the classic injection string
  \<^verbatim>\<open>' OR '1'='1\<close>, a text whose tag hides a keyword, and a field with a tag and blanks.\<close>

definition classic_injection :: string where
  "classic_injection =
     [CHR 0x27] @ '' OR '' @ [CHR 0x27] @ ''1'' @ [CHR 0x27] @ ''='' @ [CHR 0x27] @ ''1''"

definition hidden_keyword :: string where
  "hidden_keyword = ''ex<b>ec''"

definition tagged_field :: string where
  "tagged_field = ''  Kids <b>Yoga</b> ''"

subsection \<open>The matcher\<close>

text \<open>
  The bound on the iterations of a starred pattern is no limit: with the length of the
  rest of the text, or any larger number, \<open>star_ends\<close> reaches the same positions.
\<close>

lemma star_ends_fuel:
  "length (snd p) \<le> n \<Longrightarrow> star_ends f n p = star_ends f (length (snd p)) p"
proof (induction "length (snd p)" arbitrary: p n rule: less_induct)
  case less
  show ?case
  proof (cases "length (snd p)")
    case 0
    then show ?thesis by (cases n) simp_all
  next
    case (Suc m)
    then obtain k where n: "n = Suc k" and k: "m \<le> k"
      using less.prems by (cases n) auto
    have "star_ends f k q = star_ends f m q"
      if "q \<in> set (filter (\<lambda>q. length (snd q) < length (snd p)) (f p))" for q
    proof -
      from that have lt: "length (snd q) < length (snd p)" by simp
      then have "length (snd q) \<le> m" using Suc by simp
      then show ?thesis
        using less.hyps [OF lt, of k] less.hyps [OF lt, of m] k by simp
    qed
    then have eq: "map (star_ends f k) (filter (\<lambda>q. length (snd q) < length (snd p)) (f p))
                 = map (star_ends f m) (filter (\<lambda>q. length (snd q) < length (snd p)) (f p))"
      by (intro map_cong refl)
    have "star_ends f n p
            = p # concat (map (star_ends f k) (filter (\<lambda>q. length (snd q) < length (snd p)) (f p)))"
      unfolding n by (rule star_ends.simps(2))
    also have "\<dots> = p # concat (map (star_ends f m) (filter (\<lambda>q. length (snd q) < length (snd p)) (f p)))"
      by (simp only: eq)
    also have "\<dots> = star_ends f (Suc m) p"
      by (rule star_ends.simps(2) [symmetric])
    finally show ?thesis by (simp only: Suc)
  qed
qed

text \<open>
  At every position of a text the matches of \<^verbatim>\<open><[^>]*>\<close> are what \<open>strip_tags\<close> takes
  them to be: none unless the position holds a \<^verbatim>\<open><\<close> with a \<^verbatim>\<open>>\<close> after it, and then
  the one that ends at the first \<^verbatim>\<open>>\<close>.
\<close>

lemma in_class_single: "in_class c [(a, a)] \<longleftrightarrow> c = a"
  by (auto simp: in_class_def py_ord_def)

lemma tag_body_ends:
  "length s \<le> n \<Longrightarrow>
   concat (map (ends (Lit CHR ''>''))
             (star_ends (ends (NoneOf [(CHR ''>'', CHR ''>'')])) n (prev, s)))
     = (if CHR ''>'' \<in> set s
        then [(Some CHR ''>'', tl (dropWhile (\<lambda>x. x \<noteq> CHR ''>'') s))] else [])"
proof (induction s arbitrary: prev n)
  case Nil
  then show ?case by (cases n) (simp_all add: step1_def)
next
  case (Cons c cs)
  then obtain k where n: "n = Suc k" and k: "length cs \<le> k" by (cases n) auto
  show ?case
  proof (cases "c = CHR ''>''")
    case True
    then show ?thesis by (simp add: n step1_def in_class_single)
  next
    case False
    then show ?thesis using Cons.IH [OF k, of "Some c"]
      by (simp add: n step1_def in_class_single)
  qed
qed

lemma tag_match_ends:
  "ends tag_rx (prev, []) = []"
  "ends tag_rx (prev, c # cs) =
     (if c = CHR ''<'' \<and> CHR ''>'' \<in> set cs
      then [(Some CHR ''>'', tl (dropWhile (\<lambda>x. x \<noteq> CHR ''>'') cs))] else [])"
  using tag_body_ends [of cs "length cs" "Some CHR ''<''"]
  by (auto simp: tag_rx_def step1_def)

subsection \<open>The heuristic on the two inputs of the specification\<close>

text \<open>
  C5. The injection heuristic does not flag \<^verbatim>\<open>' OR '1'='1\<close>: the second pattern wants
  \<^verbatim>\<open>=\<close> right after the quote that follows \<^verbatim>\<open>or\<close>, the third wants a digit right after
  \<^verbatim>\<open>or\<close>, and here a quoted \<^verbatim>\<open>1\<close> stands at that place.
\<close>

theorem sql_injection_classic_missed:
  "\<not> check_sql_injection classic_injection"
  by code_simp

lemma sql_injection_plain_text:
  "\<not> check_sql_injection ''My kid loves robotics''"
  by code_simp

text \<open>The variants that the second and third pattern were written for are flagged.\<close>

lemma sql_injection_variants:
  "check_sql_injection ([CHR 0x27] @ '' or '' @ [CHR 0x27] @ ''='' @ [CHR 0x27, CHR 0x27])
     \<and> check_sql_injection ([CHR 0x27] @ '' OR 1=1'' @ [CHR 0x27])"
  by code_simp

subsection \<open>Sanitizing twice\<close>

fun tag_free :: "string \<Rightarrow> bool" where
  "tag_free [] = True"
| "tag_free (c # cs) = ((c \<noteq> CHR ''<'' \<or> CHR ''>'' \<notin> set cs) \<and> tag_free cs)"

lemma set_tl_subset: "set (tl xs) \<subseteq> set xs"
  by (cases xs) auto

lemma set_strip_tags: "set (strip_tags s) \<subseteq> set s"
proof (induction s rule: strip_tags.induct)
  case 1
  show ?case by simp
next
  case (2 c cs)
  have "set (tl (dropWhile (\<lambda>x. x \<noteq> CHR ''>'') cs)) \<subseteq> set cs"
    using set_tl_subset [of "dropWhile (\<lambda>x. x \<noteq> CHR ''>'') cs"]
    by (auto dest: set_dropWhileD)
  with 2 show ?case by auto
qed

lemma tag_free_strip_tags: "tag_free (strip_tags s)"
proof (induction s rule: strip_tags.induct)
  case 1
  show ?case by simp
next
  case (2 c cs)
  show ?case
  proof (cases "c = CHR ''<'' \<and> CHR ''>'' \<in> set cs")
    case True
    with 2 show ?thesis by simp
  next
    case False
    then have "c \<noteq> CHR ''<'' \<or> CHR ''>'' \<notin> set (strip_tags cs)"
      using set_strip_tags [of cs] by auto
    with 2 False show ?thesis by auto
  qed
qed

lemma strip_tags_id: "tag_free s \<Longrightarrow> strip_tags s = s"
  by (induction s) auto

lemma tag_free_append: "tag_free (xs @ ys) \<Longrightarrow> tag_free xs \<and> tag_free ys"
  by (induction xs) auto

lemma tag_free_take: "tag_free s \<Longrightarrow> tag_free (take n s)"
  using tag_free_append [of "take n s" "drop n s"] by simp

lemma tag_free_dropWhile: "tag_free s \<Longrightarrow> tag_free (dropWhile P s)"
  using tag_free_append [of "takeWhile P s" "dropWhile P s"] by simp

lemma rev_dropWhile_rev_prefix:
  "rev (dropWhile P (rev s)) @ rev (takeWhile P (rev s)) = s"
proof -
  have "rev (takeWhile P (rev s) @ dropWhile P (rev s)) = s" by simp
  then show ?thesis by (simp only: rev_append)
qed

lemma tag_free_strip: "tag_free s \<Longrightarrow> tag_free (strip s)"
proof -
  assume "tag_free s"
  then have "tag_free (dropWhile is_space s)" by (rule tag_free_dropWhile)
  then show "tag_free (strip s)"
    using tag_free_append [of "rev (dropWhile is_space (rev (dropWhile is_space s)))"
        "rev (takeWhile is_space (rev (dropWhile is_space s)))"]
    by (simp add: rev_dropWhile_rev_prefix strip_def)
qed

lemma set_strip: "set (strip s) \<subseteq> set s"
proof -
  have "set (dropWhile is_space (rev (dropWhile is_space s))) \<subseteq> set (rev (dropWhile is_space s))"
    by (meson set_dropWhileD subsetI)
  moreover have "set (dropWhile is_space s) \<subseteq> set s" by (meson set_dropWhileD subsetI)
  ultimately show ?thesis by (auto simp: strip_def)
qed

lemma length_strip: "length (strip s) \<le> length s"
proof -
  have "length (dropWhile is_space (rev (dropWhile is_space s))) \<le> length (rev (dropWhile is_space s))"
    by (rule length_dropWhile_le)
  moreover have "length (dropWhile is_space s) \<le> length s" by (rule length_dropWhile_le)
  ultimately show ?thesis by (simp add: strip_def)
qed

lemma dropWhile_same: "s = [] \<or> \<not> P (hd s) \<Longrightarrow> dropWhile P s = s"
  by (cases s) auto

lemma strip_strip: "strip (strip s) = strip s"
proof -
  define u where "u = dropWhile is_space s"
  define w where "w = dropWhile is_space (rev u)"
  have strip: "strip s = rev w" by (simp add: strip_def u_def w_def)
  have w_hd: "w = [] \<or> \<not> is_space (hd w)" unfolding w_def by (metis hd_dropWhile)
  have u_hd: "u = [] \<or> \<not> is_space (hd u)" unfolding u_def by (metis hd_dropWhile)
  have pre: "rev w @ rev (takeWhile is_space (rev u)) = u"
    unfolding w_def by (rule rev_dropWhile_rev_prefix)
  have "rev w = [] \<or> \<not> is_space (hd (rev w))"
  proof (cases "rev w = []")
    case True then show ?thesis by simp
  next
    case False
    then have "hd (rev w) = hd u" using pre by (metis hd_append2)
    moreover have "u \<noteq> []" using pre False by auto
    ultimately show ?thesis using u_hd by simp
  qed
  then have a: "dropWhile is_space (rev w) = rev w" by (rule dropWhile_same)
  have b: "dropWhile is_space w = w" using w_hd by (rule dropWhile_same)
  show ?thesis unfolding strip by (simp add: strip_def a b)
qed

lemma filter_printable_id: "set y \<subseteq> set (filter printable x) \<Longrightarrow> filter printable y = y"
  by (induction y) auto

text \<open>
  C6, as the code has it. For every text and every \<open>max_length \<ge> 0\<close>, sanitizing the
  sanitized text gives the sanitized text again, unless the sanitized text itself is
  flagged by the injection heuristic; then the second pass gives the empty string.
\<close>

theorem sanitize_twice:
  assumes "0 \<le> max_length"
  shows "sanitize_input (sanitize_input x max_length) max_length =
           (if check_sql_injection (sanitize_input x max_length) then []
            else sanitize_input x max_length)"
proof (cases "x = [] \<or> check_sql_injection x")
  case True
  then have "sanitize_input x max_length = []" by (auto simp: sanitize_input_def)
  then show ?thesis by (simp add: sanitize_input_def)
next
  case False
  define t where "t = strip_tags (filter printable x)"
  define y where "y = strip (take (nat max_length) t)"
  have y: "sanitize_input x max_length = y"
    using False assms by (simp add: sanitize_input_def py_prefix_def y_def t_def)
  have "set y \<subseteq> set (take (nat max_length) t)" unfolding y_def by (rule set_strip)
  also have "\<dots> \<subseteq> set t" by (rule set_take_subset)
  also have "\<dots> \<subseteq> set (filter printable x)" unfolding t_def by (rule set_strip_tags)
  finally have 1: "filter printable y = y" by (rule filter_printable_id)
  have "tag_free t" unfolding t_def by (rule tag_free_strip_tags)
  then have "tag_free y" unfolding y_def by (intro tag_free_strip tag_free_take)
  then have 2: "strip_tags y = y" by (rule strip_tags_id)
  have "length y \<le> length (take (nat max_length) t)" unfolding y_def by (rule length_strip)
  then have 3: "take (nat max_length) y = y" by simp
  have 4: "strip y = y" unfolding y_def by (rule strip_strip)
  show ?thesis
    unfolding y using assms
    by (simp add: sanitize_input_def [of y] py_prefix_def 1 2 3 4)
qed

theorem sanitize_twice_witness:
  "sanitize_input tagged_field 200 = ''Kids Yoga''
     \<and> sanitize_input (sanitize_input tagged_field 200) 200 = sanitize_input tagged_field 200"
proof -
  have a: "sanitize_input tagged_field 200 = ''Kids Yoga''" by code_simp
  have b: "\<not> check_sql_injection ''Kids Yoga''" by code_simp
  have c: "(0::int) \<le> 200" by simp
  show ?thesis using sanitize_twice [OF c, of tagged_field] a b by simp
qed

text \<open>
  The claim as written fails: \<^verbatim>\<open>ex<b>ec\<close> is not flagged, its sanitized form
  \<^verbatim>\<open>exec\<close> is, and the second pass returns the empty string. With a negative
  \<open>max_length\<close> each pass drops one more character.
\<close>

theorem sanitize_idempotence_counterexample:
  "\<not> check_sql_injection hidden_keyword
     \<and> sanitize_input hidden_keyword 1000 = ''exec''
     \<and> sanitize_input (sanitize_input hidden_keyword 1000) 1000 = []
     \<and> sanitize_input ''abc'' (- 1) = ''ab''
     \<and> sanitize_input (sanitize_input ''abc'' (- 1)) (- 1) = ''a''"
  by code_simp


section \<open>The request handlers and the database\<close>

subsection \<open>Values, rows and tables\<close>

text \<open>
  The handlers of \<^verbatim>\<open>SkillioHandler\<close> work on the SQLite file \<^verbatim>\<open>activities.db\<close>. A
  value is NULL, an integer or a text. \<^verbatim>\<open>submitted_activities\<close> is read with
  \<^verbatim>\<open>SELECT *\<close> and indexed by position, so it is modelled with its columns (each with its
  default) and its rows as tuples of values; it may be absent. The other tables are
  lists of records that hold the columns the handlers write and read. A handler commits
  at its end; one that returns early or raises commits nothing, so it returns the
  database it was given (with the table it has created, where it created one: SQLite
  keeps that without a commit). Every UUID and time stamp a handler draws is an
  argument.
\<close>

datatype sqlval = SNull | SInt int | SText string

datatype py_exception = IndexError | OperationalError | IntegrityError

datatype coldefault = Default_value sqlval | Default_now

record table =
  tbl_columns :: "(string \<times> coldefault) list"
  tbl_rows :: "sqlval list list"

record school =
  s_id :: string
  s_name :: sqlval
  s_description :: sqlval
  s_city :: sqlval
  s_verified :: sqlval
  s_created_by :: sqlval

record activity =
  a_id :: string
  a_school_id :: string
  a_title :: sqlval
  a_description :: sqlval
  a_category :: sqlval
  a_age_min :: int
  a_age_max :: int
  a_active :: int
  a_verified :: int
  a_created_by :: string
  a_source :: string

record claim =
  c_id :: string
  c_user_id :: string
  c_agency_id :: string
  c_status :: string

record database =
  submitted_activities :: "table option"
  schools :: "school list"
  activities :: "activity list"
  user_agency_claims :: "claim list"

subsection \<open>Responses and the role check\<close>

text \<open>
  A response is its status code and its body: \<^verbatim>\<open>{'error': ...}\<close>,
  \<^verbatim>\<open>{'success': True, 'message': ...}\<close>, the redirect of \<^verbatim>\<open>require_role\<close> or its
  \<^verbatim>\<open>403\<close> page. The texts of the messages (Bulgarian in the source) are named by
  constructors. \<^verbatim>\<open>send_json_response\<close> sends the status 200 when the call gives none.
  \<^verbatim>\<open>require_role\<close> answers 302 without a user and 403 for a role that is not allowed.
\<close>

datatype message =
    Missing_parameters
  | Invalid_action
  | Submission_not_found
  | Submission_approved
  | Submission_rejected
  | System_error py_exception
  | Field_required string
  | Inappropriate_field string
  | Inappropriate_description
  | Submission_received
  | Save_error py_exception
  | Too_many_requests
  | Missing_agency_id
  | Agency_not_found
  | Already_claimed
  | Claim_sent sqlval
  | Claim_error py_exception
  | Registration_successful
  | Registration_unavailable

datatype body = Error_body message | Success_body message | Redirect string | Forbidden_page

type_synonym response = "nat \<times> body"

record user =
  u_id :: string
  u_email :: string
  u_role :: string

definition require_role :: "user option \<Rightarrow> string list \<Rightarrow> response + user" where
  "require_role cur allowed_roles =
     (case cur of
        None \<Rightarrow> Inl (302, Redirect ''/login'')
      | Some u \<Rightarrow> if u_role u \<in> set allowed_roles then Inr u else Inl (403, Forbidden_page))"

subsection \<open>Moderation of submissions\<close>

text \<open>
  \<^verbatim>\<open>handle_moderate_submission\<close>: an admin sends \<^verbatim>\<open>submission_id\<close> and \<^verbatim>\<open>action\<close>.
  Without one of them, or with an action other than approve and reject, the answer
  is 400. The first row with that id and the status pending is fetched with
  \<^verbatim>\<open>SELECT *\<close>; without one the answer is 404. Approval inserts a school
  \<^verbatim>\<open>(school_id, submission[3], submission[9] or '', submission[5], 1, user['id'])\<close> and
  an activity
  \<^verbatim>\<open>(activity_id, school_id, submission[2], submission[9] or '', submission[4], 3, 18, 1, 1, user['id'], 'parent')\<close>
  and sets the status to approved; rejection sets it to rejected. An index past the
  end of the row raises \<^verbatim>\<open>IndexError\<close> while the first tuple is built, before any
  statement runs; every exception is answered with 500. The primary keys of the two
  inserted rows are fresh UUIDs.
\<close>

fun index_of :: "string \<Rightarrow> string list \<Rightarrow> nat option" where
  "index_of x [] = None"
| "index_of x (y # ys) = (if x = y then Some 0 else map_option Suc (index_of x ys))"

definition cell :: "sqlval list \<Rightarrow> nat \<Rightarrow> sqlval option" where
  "cell r i = (if i < length r then Some (r ! i) else None)"

definition column_names :: "table \<Rightarrow> string list" where
  "column_names t = map fst (tbl_columns t)"

definition select_pending :: "table \<Rightarrow> string \<Rightarrow> py_exception + sqlval list option" where
  "select_pending t sid =
     (case (index_of ''id'' (column_names t), index_of ''status'' (column_names t)) of
        (Some i, Some j) \<Rightarrow>
          Inr (find (\<lambda>r. cell r i = Some (SText sid) \<and> cell r j = Some (SText ''pending''))
                 (tbl_rows t))
      | _ \<Rightarrow> Inl OperationalError)"

definition set_status :: "table \<Rightarrow> string \<Rightarrow> string \<Rightarrow> table" where
  "set_status t sid st =
     (case (index_of ''id'' (column_names t), index_of ''status'' (column_names t)) of
        (Some i, Some j) \<Rightarrow>
          t\<lparr>tbl_rows := map (\<lambda>r. if cell r i = Some (SText sid) then r[j := SText st] else r)
                            (tbl_rows t)\<rparr>
      | _ \<Rightarrow> t)"

definition or_empty :: "sqlval \<Rightarrow> sqlval" where
  "or_empty v = (if v = SNull \<or> v = SText [] \<or> v = SInt 0 then SText [] else v)"

definition falsy :: "string option \<Rightarrow> bool" where
  "falsy x = (case x of None \<Rightarrow> True | Some s \<Rightarrow> s = [])"

definition approve_submission ::
    "user \<Rightarrow> sqlval list \<Rightarrow> string \<Rightarrow> string \<Rightarrow> string \<Rightarrow> table \<Rightarrow> database
       \<Rightarrow> py_exception + database" where
  "approve_submission usr submission sid school_id activity_id t db =
     (if length submission < 10 then Inl IndexError
      else Inr (db\<lparr>schools := schools db @
                       [\<lparr>s_id = school_id, s_name = submission ! 3,
                         s_description = or_empty (submission ! 9), s_city = submission ! 5,
                         s_verified = SInt 1, s_created_by = SText (u_id usr)\<rparr>],
                    activities := activities db @
                       [\<lparr>a_id = activity_id, a_school_id = school_id, a_title = submission ! 2,
                         a_description = or_empty (submission ! 9), a_category = submission ! 4,
                         a_age_min = 3, a_age_max = 18, a_active = 1, a_verified = 1,
                         a_created_by = u_id usr, a_source = ''parent''\<rparr>],
                    submitted_activities := Some (set_status t sid ''approved'')\<rparr>))"

definition handle_moderate_submission ::
    "user option \<Rightarrow> string option \<Rightarrow> string option \<Rightarrow> string \<Rightarrow> string \<Rightarrow> database
       \<Rightarrow> response \<times> database" where
  "handle_moderate_submission cur submission_id action school_id activity_id db =
     (case require_role cur [''admin''] of
        Inl r \<Rightarrow> (r, db)
      | Inr usr \<Rightarrow>
          if falsy submission_id \<or> falsy action then ((400, Error_body Missing_parameters), db)
          else if the action \<notin> {''approve'', ''reject''}
          then ((400, Error_body Invalid_action), db)
          else (case submitted_activities db of
                  None \<Rightarrow> ((500, Error_body (System_error OperationalError)), db)
                | Some t \<Rightarrow>
                    (case select_pending t (the submission_id) of
                       Inl e \<Rightarrow> ((500, Error_body (System_error e)), db)
                     | Inr None \<Rightarrow> ((404, Error_body Submission_not_found), db)
                     | Inr (Some submission) \<Rightarrow>
                         if the action = ''approve''
                         then (case approve_submission usr submission (the submission_id)
                                      school_id activity_id t db of
                                 Inl e \<Rightarrow> ((500, Error_body (System_error e)), db)
                               | Inr db' \<Rightarrow> ((200, Success_body Submission_approved), db'))
                         else ((200, Success_body Submission_rejected),
                               db\<lparr>submitted_activities :=
                                     Some (set_status t (the submission_id) ''rejected'')\<rparr>))))"

text \<open>
  The table as \<^verbatim>\<open>handle_activity_submission\<close> creates it
  (\<^verbatim>\<open>CREATE TABLE IF NOT EXISTS submitted_activities\<close>): nine columns, the description at
  index 6 and the status at index 7.
\<close>

definition submitted_activities_schema :: "(string \<times> coldefault) list" where
  "submitted_activities_schema =
     [(''id'', Default_value SNull), (''submitted_by'', Default_value SNull),
      (''activity_name'', Default_value SNull), (''school_name'', Default_value SNull),
      (''category'', Default_value SNull), (''city'', Default_value SNull),
      (''description'', Default_value SNull),
      (''status'', Default_value (SText ''pending'')), (''created_at'', Default_now)]"

text \<open>
  The table that the scripts \<^verbatim>\<open>test_submission_check.py\<close> and \<^verbatim>\<open>fix_submission.py\<close>
  read and fill: fourteen columns, the description at index 9.
\<close>

definition wide_schema :: "(string \<times> coldefault) list" where
  "wide_schema =
     [(''id'', Default_value SNull), (''submitted_by'', Default_value SNull),
      (''activity_name'', Default_value SNull), (''school_name'', Default_value SNull),
      (''category'', Default_value SNull), (''city'', Default_value SNull),
      (''neighborhood'', Default_value SNull), (''age_range'', Default_value SNull),
      (''price_range'', Default_value SNull), (''description'', Default_value SNull),
      (''contact_info'', Default_value SNull), (''personal_experience'', Default_value SNull),
      (''status'', Default_value (SText ''pending'')), (''created_at'', Default_now)]"

subsection \<open>Submission of an activity\<close>

text \<open>
  \<^verbatim>\<open>handle_activity_submission\<close>: a parent, limited to 3 submissions per 3600 seconds
  under the key \<^verbatim>\<open>{client_ip}:submit_activity_{user id}\<close>, sends a JSON object (here a
  map from field to text). Each required field is stripped and sanitized to 200
  characters; an empty result is answered with an error (and the default status 200),
  one that trips the spam heuristic with 400. The description is sanitized to 2000
  characters and, when not empty, checked in the same way. Then the table is created
  if it is absent and the row is inserted; an exception is answered with an error and
  the status 200.
\<close>

definition get_field :: "(string \<rightharpoonup> string) \<Rightarrow> string \<Rightarrow> string" where
  "get_field data f = (case data f of None \<Rightarrow> [] | Some v \<Rightarrow> v)"

definition required_fields :: "string list" where
  "required_fields = [''activity_name'', ''school_name'', ''category'', ''city'']"

definition sanitized_field :: "(string \<rightharpoonup> string) \<Rightarrow> string \<Rightarrow> string" where
  "sanitized_field data f = sanitize_input (strip (get_field data f)) 200"

definition sanitized_description :: "(string \<rightharpoonup> string) \<Rightarrow> string" where
  "sanitized_description data = sanitize_input (get_field data ''description'') 2000"

fun sanitize_required ::
    "(string \<rightharpoonup> string) \<Rightarrow> string list \<Rightarrow> response + (string \<times> string) list" where
  "sanitize_required data [] = Inr []"
| "sanitize_required data (f # fs) =
     (let v = sanitized_field data f
      in if v = [] then Inl (200, Error_body (Field_required f))
         else if detect_spam_patterns v then Inl (400, Error_body (Inappropriate_field f))
         else (case sanitize_required data fs of
                 Inl r \<Rightarrow> Inl r
               | Inr rest \<Rightarrow> Inr ((f, v) # rest)))"

definition validate_submission ::
    "(string \<rightharpoonup> string) \<Rightarrow> response + (string \<times> string) list" where
  "validate_submission data =
     (case sanitize_required data required_fields of
        Inl r \<Rightarrow> Inl r
      | Inr sanitized_data \<Rightarrow>
          (let description = sanitized_description data
           in if description \<noteq> [] \<and> detect_spam_patterns description
              then Inl (400, Error_body Inappropriate_description)
              else Inr (sanitized_data @ [(''description'', description)])))"

definition submit_endpoint :: "user \<Rightarrow> string" where
  "submit_endpoint usr = ''submit_activity_'' @ u_id usr"

definition insert_row ::
    "table \<Rightarrow> (string \<times> sqlval) list \<Rightarrow> string \<Rightarrow> py_exception + table" where
  "insert_row t named timestamp =
     (if \<not> list_all (\<lambda>c. c \<in> set (column_names t)) (map fst named) then Inl OperationalError
      else if (case (index_of ''id'' (column_names t), map_of named ''id'') of
                 (Some i, Some v) \<Rightarrow> list_ex (\<lambda>r. cell r i = Some v) (tbl_rows t)
               | _ \<Rightarrow> False)
      then Inl IntegrityError
      else Inr (t\<lparr>tbl_rows := tbl_rows t @
                  [map (\<lambda>(c, d). case map_of named c of
                                    Some v \<Rightarrow> v
                                  | None \<Rightarrow> (case d of Default_value v \<Rightarrow> v
                                                      | Default_now \<Rightarrow> SText timestamp))
                       (tbl_columns t)]\<rparr>))"

definition check_rate_limit ::
    "real \<Rightarrow> real \<Rightarrow> string \<Rightarrow> string \<Rightarrow> int \<Rightarrow> real \<Rightarrow> string rate_limiter
       \<Rightarrow> response option \<times> string rate_limiter" where
  "check_rate_limit t_sweep now client_ip endpoint_name max_requests window_seconds rl =
     (let r = is_rate_limited t_sweep now (client_ip @ '':'' @ endpoint_name)
                max_requests window_seconds rl
      in if fst (fst r) then (Some (429, Error_body Too_many_requests), snd r)
         else (None, snd r))"

definition field_of :: "(string \<times> string) list \<Rightarrow> string \<Rightarrow> string" where
  "field_of sanitized_data k = (case map_of sanitized_data k of None \<Rightarrow> [] | Some v \<Rightarrow> v)"

definition handle_activity_submission ::
    "user option \<Rightarrow> string \<Rightarrow> real \<Rightarrow> real \<Rightarrow> (string \<rightharpoonup> string) \<Rightarrow> string \<Rightarrow> string
       \<Rightarrow> string rate_limiter \<Rightarrow> database \<Rightarrow> response \<times> string rate_limiter \<times> database" where
  "handle_activity_submission cur client_ip t_sweep now data activity_id timestamp rl db =
     (case require_role cur [''parent''] of
        Inl r \<Rightarrow> (r, rl, db)
      | Inr usr \<Rightarrow>
          (case check_rate_limit t_sweep now client_ip (submit_endpoint usr) 3 3600 rl of
             (Some r, rl') \<Rightarrow> (r, rl', db)
           | (None, rl') \<Rightarrow>
               (case validate_submission data of
                  Inl r \<Rightarrow> (r, rl', db)
                | Inr sanitized_data \<Rightarrow>
                    (let t = (case submitted_activities db of
                                None \<Rightarrow> \<lparr>tbl_columns = submitted_activities_schema, tbl_rows = []\<rparr>
                              | Some t \<Rightarrow> t)
                     in case insert_row t
                               [(''id'', SText activity_id), (''submitted_by'', SText (u_id usr)),
                                (''activity_name'', SText (field_of sanitized_data ''activity_name'')),
                                (''school_name'', SText (field_of sanitized_data ''school_name'')),
                                (''category'', SText (field_of sanitized_data ''category'')),
                                (''city'', SText (field_of sanitized_data ''city'')),
                                (''description'', SText (field_of sanitized_data ''description''))]
                               timestamp of
                          Inl e \<Rightarrow> ((200, Error_body (Save_error e)), rl',
                                    db\<lparr>submitted_activities := Some t\<rparr>)
                        | Inr t' \<Rightarrow> ((200, Success_body Submission_received), rl',
                                     db\<lparr>submitted_activities := Some t'\<rparr>)))))"

definition spam_tripped :: "(string \<rightharpoonup> string) \<Rightarrow> bool" where
  "spam_tripped data =
     (list_ex (\<lambda>f. detect_spam_patterns (sanitized_field data f)) required_fields
      \<or> detect_spam_patterns (sanitized_description data))"

text \<open>
  Of \<^verbatim>\<open>handle_registration\<close>, the two places that delay the answer by
  \<^verbatim>\<open>time.sleep(2)\<close>: the honeypot check at its start (a filled \<^verbatim>\<open>website\<close>, \<^verbatim>\<open>url\<close>
  or \<^verbatim>\<open>phone\<close> field), answered with the success message, and the spam check on the
  e-mail address after the validations, answered with 400. Each gives the delay in
  seconds and the response, or nothing when the check passes.
\<close>

definition registration_honeypot_check ::
    "string option \<Rightarrow> string option \<Rightarrow> string option \<Rightarrow> (nat \<times> response) option" where
  "registration_honeypot_check website url phone =
     (if \<not> falsy website \<or> \<not> falsy url \<or> \<not> falsy phone
      then Some (2, (200, Success_body Registration_successful)) else None)"

definition registration_spam_check :: "string \<Rightarrow> (nat \<times> response) option" where
  "registration_spam_check email =
     (if detect_spam_patterns email
      then Some (2, (400, Error_body Registration_unavailable)) else None)"

subsection \<open>Ownership claims\<close>

text \<open>
  \<^verbatim>\<open>handle_agency_claim\<close>: a user of the role school sends \<^verbatim>\<open>agency_id\<close>. Without it
  the answer is 400; for an id that no school has, 404; when the user already has a
  pending claim on the agency, 400; otherwise a pending claim with a fresh id is
  inserted (a duplicate primary key raises and is answered with 500).
\<close>

definition is_pending_claim :: "string \<Rightarrow> string \<Rightarrow> claim \<Rightarrow> bool" where
  "is_pending_claim uid aid c =
     (c_user_id c = uid \<and> c_agency_id c = aid \<and> c_status c = ''pending'')"

definition handle_agency_claim ::
    "user option \<Rightarrow> string option \<Rightarrow> string \<Rightarrow> database \<Rightarrow> response \<times> database" where
  "handle_agency_claim cur agency_id claim_id db =
     (case require_role cur [''school''] of
        Inl r \<Rightarrow> (r, db)
      | Inr usr \<Rightarrow>
          if falsy agency_id then ((400, Error_body Missing_agency_id), db)
          else (case find (\<lambda>s. s_id s = the agency_id) (schools db) of
                  None \<Rightarrow> ((404, Error_body Agency_not_found), db)
                | Some agency \<Rightarrow>
                    if list_ex (is_pending_claim (u_id usr) (the agency_id)) (user_agency_claims db)
                    then ((400, Error_body Already_claimed), db)
                    else if claim_id \<in> set (map c_id (user_agency_claims db))
                    then ((500, Error_body (Claim_error IntegrityError)), db)
                    else ((200, Success_body (Claim_sent (s_name agency))),
                          db\<lparr>user_agency_claims := user_agency_claims db @
                                [\<lparr>c_id = claim_id, c_user_id = u_id usr,
                                  c_agency_id = the agency_id, c_status = ''pending''\<rparr>]\<rparr>)))"

record claim_call =
  cc_user :: "user option"
  cc_agency_id :: "string option"
  cc_claim_id :: string

fun run_claims :: "claim_call list \<Rightarrow> database \<Rightarrow> database" where
  "run_claims [] db = db"
| "run_claims (c # cs) db =
     run_claims cs (snd (handle_agency_claim (cc_user c) (cc_agency_id c) (cc_claim_id c) db))"

definition pending_claims :: "database \<Rightarrow> string \<Rightarrow> string \<Rightarrow> claim list" where
  "pending_claims db uid aid = filter (is_pending_claim uid aid) (user_agency_claims db)"

subsection \<open>The list of claimable agencies\<close>








subsection \<open>Concrete users, requests and databases\<close>

definition admin :: user where
  "admin = \<lparr>u_id = ''admin-1'', u_email = ''admin@example.org'', u_role = ''admin''\<rparr>"

definition yoga_row :: "sqlval list" where
  "yoga_row = [SText ''sub-1'', SText ''parent-1'', SText ''Kids Yoga'', SText ''Harmony Center'',
               SText ''Sports'', SText ''Sofia'', SText '''', SText ''pending'',
               SText ''2026-01-01 10:00:00'']"

definition db_pending :: database where
  "db_pending = \<lparr>submitted_activities =
                   Some \<lparr>tbl_columns = submitted_activities_schema, tbl_rows = [yoga_row]\<rparr>,
                 schools = [], activities = [], user_agency_claims = []\<rparr>"

definition wide_row :: "string \<Rightarrow> sqlval list" where
  "wide_row st = [SText ''sub-1'', SText ''parent-1'', SText ''Kids Yoga'', SText ''Harmony Center'',
               SText ''Sports'', SText ''Sofia'', SNull, SNull, SNull, SText ''Yoga for children'',
               SNull, SNull, SText st, SText ''2026-01-01 10:00:00'']"

definition db_wide :: "string \<Rightarrow> database" where
  "db_wide st = \<lparr>submitted_activities =
                   Some \<lparr>tbl_columns = wide_schema, tbl_rows = [wide_row st]\<rparr>,
                 schools = [], activities = [], user_agency_claims = []\<rparr>"

definition db_wide_approved :: database where
  "db_wide_approved = (db_wide ''approved'')
     \<lparr>schools := [\<lparr>s_id = ''s-1'', s_name = SText ''Harmony Center'',
                    s_description = SText ''Yoga for children'', s_city = SText ''Sofia'',
                    s_verified = SInt 1, s_created_by = SText ''admin-1''\<rparr>],
      activities := [\<lparr>a_id = ''a-1'', a_school_id = ''s-1'', a_title = SText ''Kids Yoga'',
                       a_description = SText ''Yoga for children'', a_category = SText ''Sports'',
                       a_age_min = 3, a_age_max = 18, a_active = 1, a_verified = 1,
                       a_created_by = ''admin-1'', a_source = ''parent''\<rparr>]\<rparr>"

definition parent :: user where
  "parent = \<lparr>u_id = ''parent-1'', u_email = ''parent@example.org'', u_role = ''parent''\<rparr>"

definition yoga_data :: "string \<rightharpoonup> string" where
  "yoga_data = [''activity_name'' \<mapsto> ''Kids Yoga'', ''school_name'' \<mapsto> ''Harmony Center'',
                ''category'' \<mapsto> ''Sports'', ''city'' \<mapsto> ''Sofia'']"

definition spam_data :: "string \<rightharpoonup> string" where
  "spam_data = yoga_data(''activity_name'' \<mapsto> ''Buy cheap watches'')"

text \<open>A submission whose name trips the spam heuristic as it is sent and no longer after
  the sanitization, which deletes the tag.\<close>

definition tagged_spam_data :: "string \<rightharpoonup> string" where
  "tagged_spam_data = yoga_data(''activity_name'' \<mapsto> ''buy <cheap>'')"

definition empty_db :: database where
  "empty_db = \<lparr>submitted_activities = None, schools = [], activities = [], user_agency_claims = []\<rparr>"

definition other_school :: "string \<Rightarrow> school" where
  "other_school n = \<lparr>s_id = ''ag-'' @ n, s_name = SText (''Agency '' @ n), s_description = SNull,
                     s_city = SText ''Sofia'', s_verified = SInt 1, s_created_by = SText ''other''\<rparr>"



definition school_user :: user where
  "school_user = \<lparr>u_id = ''u-1'', u_email = ''school@example.org'', u_role = ''school''\<rparr>"

definition db_two_schools :: database where
  "db_two_schools =
     \<lparr>submitted_activities = None, schools = [other_school ''b'', other_school ''a''],
      activities = [], user_agency_claims = []\<rparr>"

definition two_claims :: "claim_call list" where
  "two_claims =
     [\<lparr>cc_user = Some school_user, cc_agency_id = Some ''ag-a'', cc_claim_id = ''c-1''\<rparr>,
      \<lparr>cc_user = Some school_user, cc_agency_id = Some ''ag-a'', cc_claim_id = ''c-2''\<rparr>]"

subsection \<open>Approval of a submission\<close>

lemma approve_narrow_row:
  assumes "require_role cur [''admin''] = Inr usr"
    and "submitted_activities db = Some t"
    and "sid \<noteq> []"
    and "select_pending t sid = Inr (Some submission)"
    and "length submission < 10"
  shows "handle_moderate_submission cur (Some sid) (Some ''approve'') school_id activity_id db
           = ((500, Error_body (System_error IndexError)), db)"
  using assms
  by (simp add: handle_moderate_submission_def falsy_def approve_submission_def)

text \<open>
  C2. On the table that the submission handler creates, approval of a pending
  submission fails: the row has nine columns, \<^verbatim>\<open>submission[9]\<close> raises
  \<^verbatim>\<open>IndexError\<close>, the answer is 500, no school and no activity is created and the
  submission stays pending.
\<close>

theorem approve_after_submit_fails:
  "handle_activity_submission (Some parent) ''10.0.0.1'' 0 0 yoga_data ''sub-1''
       ''2026-01-01 10:00:00'' (init_rate_limiter 0) empty_db
     = ((200, Success_body Submission_received),
        snd (is_rate_limited 0 0 (''10.0.0.1:'' @ submit_endpoint parent) 3 3600 (init_rate_limiter 0)),
        db_pending)
   \<and> handle_moderate_submission (Some admin) (Some ''sub-1'') (Some ''approve'') ''s-1'' ''a-1''
         db_pending
       = ((500, Error_body (System_error IndexError)), db_pending)"
proof -
  have r: "require_role (Some parent) [''parent''] = Inr parent"
    by (simp add: require_role_def parent_def)
  have c: "check_rate_limit 0 0 ''10.0.0.1'' (submit_endpoint parent) 3 3600 (init_rate_limiter 0)
             = (None, snd (is_rate_limited 0 0 (''10.0.0.1:'' @ submit_endpoint parent) 3 3600
                             (init_rate_limiter 0)))"
    by (simp add: check_rate_limit_def is_rate_limited_def cleanup_old_requests_def
        init_rate_limiter_def bucket_of_def Let_def)
  have v: "validate_submission yoga_data =
             Inr [(''activity_name'', ''Kids Yoga''), (''school_name'', ''Harmony Center''),
                  (''category'', ''Sports''), (''city'', ''Sofia''), (''description'', [])]"
    by code_simp
  have u: "u_id parent = ''parent-1''" by (simp add: parent_def)
  have "handle_activity_submission (Some parent) ''10.0.0.1'' 0 0 yoga_data ''sub-1''
       ''2026-01-01 10:00:00'' (init_rate_limiter 0) empty_db
     = ((200, Success_body Submission_received),
        snd (is_rate_limited 0 0 (''10.0.0.1:'' @ submit_endpoint parent) 3 3600 (init_rate_limiter 0)),
        db_pending)"
    using u
    by (simp add: handle_activity_submission_def r c v empty_db_def db_pending_def insert_row_def
        column_names_def submitted_activities_schema_def field_of_def yoga_row_def)
  moreover have
    "handle_moderate_submission (Some admin) (Some ''sub-1'') (Some ''approve'') ''s-1'' ''a-1''
         db_pending
       = ((500, Error_body (System_error IndexError)), db_pending)"
    by (simp add: handle_moderate_submission_def require_role_def admin_def falsy_def
        db_pending_def select_pending_def column_names_def submitted_activities_schema_def
        cell_def yoga_row_def approve_submission_def)
  ultimately show ?thesis by simp
qed

text \<open>
  On the table of fourteen columns approval does what the claim says: one school and
  one activity are created, the submission is approved, and a second approval of the
  same id is answered with 404 and changes nothing.
\<close>

lemma approve_wide:
  "handle_moderate_submission (Some admin) (Some ''sub-1'') (Some ''approve'') ''s-1'' ''a-1''
       (db_wide ''pending'')
     = ((200, Success_body Submission_approved), db_wide_approved)"
  by (simp add: handle_moderate_submission_def require_role_def admin_def falsy_def db_wide_def
      db_wide_approved_def select_pending_def set_status_def column_names_def wide_schema_def
      cell_def wide_row_def approve_submission_def or_empty_def)

lemma approve_wide_again:
  "handle_moderate_submission (Some admin) (Some ''sub-1'') (Some ''approve'') ''s-2'' ''a-2''
       db_wide_approved
     = ((404, Error_body Submission_not_found), db_wide_approved)"
  by (simp add: handle_moderate_submission_def require_role_def admin_def falsy_def db_wide_def
      db_wide_approved_def select_pending_def column_names_def wide_schema_def
      cell_def wide_row_def)

subsection \<open>A spam hit is answered with an error\<close>

lemma detect_spam_empty: "\<not> detect_spam_patterns []"
  by (simp add: detect_spam_patterns_def)

lemma sanitize_required_spam:
  "list_ex (\<lambda>f. detect_spam_patterns (sanitized_field data f)) fs \<Longrightarrow>
   \<exists>r m. sanitize_required data fs = Inl r \<and> snd r = Error_body m
        \<and> (list_all (\<lambda>f. sanitized_field data f \<noteq> []) fs \<longrightarrow> fst r = 400)"
proof (induction fs)
  case Nil
  then show ?case by simp
next
  case (Cons f fs)
  show ?case
  proof (cases "sanitized_field data f = [] \<or> detect_spam_patterns (sanitized_field data f)")
    case True
    then show ?thesis by (auto simp: Let_def)
  next
    case False
    then have "list_ex (\<lambda>f. detect_spam_patterns (sanitized_field data f)) fs"
      using Cons.prems by simp
    from Cons.IH [OF this] obtain r m where "sanitize_required data fs = Inl r"
      "snd r = Error_body m"
      "list_all (\<lambda>f. sanitized_field data f \<noteq> []) fs \<longrightarrow> fst r = 400"
      by blast
    then show ?thesis using False by (auto simp: Let_def)
  qed
qed

lemma sanitize_required_error:
  "sanitize_required data fs = Inl r \<Longrightarrow>
   (\<exists>m. snd r = Error_body m) \<and> (list_all (\<lambda>f. sanitized_field data f \<noteq> []) fs \<longrightarrow> fst r = 400)"
  by (induction fs arbitrary: r) (auto simp: Let_def split: if_splits sum.splits)

lemma validate_submission_spam:
  assumes "spam_tripped data"
  shows "\<exists>r m. validate_submission data = Inl r \<and> snd r = Error_body m
        \<and> (list_all (\<lambda>f. sanitized_field data f \<noteq> []) required_fields \<longrightarrow> fst r = 400)"
proof (cases "sanitize_required data required_fields")
  case (Inl r)
  then show ?thesis using sanitize_required_error [OF Inl] by (auto simp: validate_submission_def)
next
  case (Inr fields)
  then have "\<not> list_ex (\<lambda>f. detect_spam_patterns (sanitized_field data f)) required_fields"
    using sanitize_required_spam [of data required_fields] by auto
  then have d: "detect_spam_patterns (sanitized_description data)"
    using assms by (simp add: spam_tripped_def)
  then have "sanitized_description data \<noteq> []" using detect_spam_empty by auto
  then show ?thesis using Inr d by (simp add: validate_submission_def Let_def)
qed

text \<open>
  C9, as the code has it, for the submission of an activity. The spam heuristic is
  applied to the sanitized values, not to the text as it is sent: to each required
  field after \<^verbatim>\<open>strip()\<close> and \<^verbatim>\<open>sanitize_input(., 200)\<close>, and to the description after
  \<^verbatim>\<open>sanitize_input(., 2000)\<close>. For a parent within the rate limit, when one of these
  sanitized values trips the heuristic, the answer carries an error body and is not
  the success response, and nothing is stored; when every required field is non-empty
  after sanitization the status is 400.
\<close>

theorem spam_submission_gets_error:
  assumes "require_role cur [''parent''] = Inr usr"
    and "fst (check_rate_limit t_sweep now client_ip (submit_endpoint usr) 3 3600 rl) = None"
    and "spam_tripped data"
  shows "(\<exists>m. snd (fst (handle_activity_submission cur client_ip t_sweep now data activity_id
                          timestamp rl db)) = Error_body m)
       \<and> fst (handle_activity_submission cur client_ip t_sweep now data activity_id timestamp rl db)
           \<noteq> (200, Success_body Submission_received)
       \<and> snd (snd (handle_activity_submission cur client_ip t_sweep now data activity_id
                      timestamp rl db)) = db
       \<and> (list_all (\<lambda>f. sanitized_field data f \<noteq> []) required_fields \<longrightarrow>
            fst (fst (handle_activity_submission cur client_ip t_sweep now data activity_id
                        timestamp rl db)) = 400)"
proof -
  obtain r m where v: "validate_submission data = Inl r" and m: "snd r = Error_body m"
    and s: "list_all (\<lambda>f. sanitized_field data f \<noteq> []) required_fields \<longrightarrow> fst r = 400"
    using validate_submission_spam [OF assms(3)] by blast
  obtain rl' where c: "check_rate_limit t_sweep now client_ip (submit_endpoint usr) 3 3600 rl
                         = (None, rl')"
    using assms(2) by (cases "check_rate_limit t_sweep now client_ip (submit_endpoint usr) 3 3600 rl") simp
  have "handle_activity_submission cur client_ip t_sweep now data activity_id timestamp rl db
          = (r, rl', db)"
    by (simp add: handle_activity_submission_def assms(1) c v)
  then show ?thesis using m s by (cases r) auto
qed

theorem spam_submission_witness:
  "require_role (Some parent) [''parent''] = Inr parent
     \<and> spam_tripped spam_data
     \<and> fst (fst (handle_activity_submission (Some parent) ''10.0.0.1'' 0 0 spam_data ''sub-2''
                    ''2026-01-01 10:00:00'' (init_rate_limiter 0) empty_db)) = 400
     \<and> snd (snd (handle_activity_submission (Some parent) ''10.0.0.1'' 0 0 spam_data ''sub-2''
                    ''2026-01-01 10:00:00'' (init_rate_limiter 0) empty_db)) = empty_db"
proof -
  have r: "require_role (Some parent) [''parent''] = Inr parent"
    by (simp add: require_role_def parent_def)
  have c: "fst (check_rate_limit 0 0 ''10.0.0.1'' (submit_endpoint parent) 3 3600
                  (init_rate_limiter 0)) = None"
    by (simp add: check_rate_limit_def is_rate_limited_def cleanup_old_requests_def
        init_rate_limiter_def bucket_of_def Let_def)
  have s: "spam_tripped spam_data" by code_simp
  have n: "list_all (\<lambda>f. sanitized_field spam_data f \<noteq> []) required_fields" by code_simp
  show ?thesis
    using r s n spam_submission_gets_error [OF r c s, of "''sub-2''" "''2026-01-01 10:00:00''" empty_db]
    by simp
qed

text \<open>
  The claim as written fails: a submission whose name trips the heuristic is answered
  with 400 and an error, a clean one with 200 and the success message; the
  registration answers a spam hit on the e-mail address with 400 as well, after its
  delay.
\<close>

theorem spam_response_counterexample:
  "spam_tripped spam_data
     \<and> fst (handle_activity_submission (Some parent) ''10.0.0.1'' 0 0 spam_data ''sub-2''
              ''2026-01-01 10:00:00'' (init_rate_limiter 0) empty_db)
         = (400, Error_body (Inappropriate_field ''activity_name''))
     \<and> fst (handle_activity_submission (Some parent) ''10.0.0.1'' 0 0 yoga_data ''sub-1''
              ''2026-01-01 10:00:00'' (init_rate_limiter 0) empty_db)
         = (200, Success_body Submission_received)
     \<and> registration_spam_check ''buycheap@example.org''
         = Some (2, (400, Error_body Registration_unavailable))"
proof -
  have r: "require_role (Some parent) [''parent''] = Inr parent"
    by (simp add: require_role_def parent_def)
  have c: "check_rate_limit 0 0 ''10.0.0.1'' (submit_endpoint parent) 3 3600 (init_rate_limiter 0)
             = (None, snd (is_rate_limited 0 0 (''10.0.0.1:'' @ submit_endpoint parent) 3 3600
                             (init_rate_limiter 0)))"
    by (simp add: check_rate_limit_def is_rate_limited_def cleanup_old_requests_def
        init_rate_limiter_def bucket_of_def Let_def)
  have s: "spam_tripped spam_data" by code_simp
  have v1: "validate_submission spam_data
              = Inl (400, Error_body (Inappropriate_field ''activity_name''))"
    by code_simp
  have v2: "validate_submission yoga_data =
             Inr [(''activity_name'', ''Kids Yoga''), (''school_name'', ''Harmony Center''),
                  (''category'', ''Sports''), (''city'', ''Sofia''), (''description'', [])]"
    by code_simp
  have g: "registration_spam_check ''buycheap@example.org''
             = Some (2, (400, Error_body Registration_unavailable))"
    by code_simp
  have a: "fst (handle_activity_submission (Some parent) ''10.0.0.1'' 0 0 spam_data ''sub-2''
              ''2026-01-01 10:00:00'' (init_rate_limiter 0) empty_db)
         = (400, Error_body (Inappropriate_field ''activity_name''))"
    by (simp add: handle_activity_submission_def r c v1)
  have b: "fst (handle_activity_submission (Some parent) ''10.0.0.1'' 0 0 yoga_data ''sub-1''
              ''2026-01-01 10:00:00'' (init_rate_limiter 0) empty_db)
         = (200, Success_body Submission_received)"
    by (simp add: handle_activity_submission_def r c v2 empty_db_def insert_row_def
        column_names_def submitted_activities_schema_def field_of_def)
  show ?thesis using s a b g by simp
qed

text \<open>
  The heuristic sees the sanitized value only. The name \<^verbatim>\<open>buy <cheap>\<close> trips it as it is
  sent; its sanitized value is \<^verbatim>\<open>buy\<close>, which does not, so the submission is accepted
  with 200 and the success message and is stored under the name \<^verbatim>\<open>buy\<close>.
\<close>

lemma spam_checked_after_sanitization:
  "detect_spam_patterns (get_field tagged_spam_data ''activity_name'')
     \<and> sanitized_field tagged_spam_data ''activity_name'' = ''buy''
     \<and> \<not> spam_tripped tagged_spam_data
     \<and> fst (handle_activity_submission (Some parent) ''10.0.0.1'' 0 0 tagged_spam_data ''sub-3''
              ''2026-01-01 10:00:00'' (init_rate_limiter 0) empty_db)
         = (200, Success_body Submission_received)
     \<and> map_option tbl_rows
          (submitted_activities
             (snd (snd (handle_activity_submission (Some parent) ''10.0.0.1'' 0 0 tagged_spam_data
                          ''sub-3'' ''2026-01-01 10:00:00'' (init_rate_limiter 0) empty_db))))
         = Some [[SText ''sub-3'', SText ''parent-1'', SText ''buy'', SText ''Harmony Center'',
                  SText ''Sports'', SText ''Sofia'', SText [], SText ''pending'',
                  SText ''2026-01-01 10:00:00'']]"
proof -
  have r: "require_role (Some parent) [''parent''] = Inr parent"
    by (simp add: require_role_def parent_def)
  have u: "u_id parent = ''parent-1''" by (simp add: parent_def)
  have c: "check_rate_limit 0 0 ''10.0.0.1'' (submit_endpoint parent) 3 3600 (init_rate_limiter 0)
             = (None, snd (is_rate_limited 0 0 (''10.0.0.1:'' @ submit_endpoint parent) 3 3600
                             (init_rate_limiter 0)))"
    by (simp add: check_rate_limit_def is_rate_limited_def cleanup_old_requests_def
        init_rate_limiter_def bucket_of_def Let_def)
  have d: "detect_spam_patterns (get_field tagged_spam_data ''activity_name'')" by code_simp
  have f: "sanitized_field tagged_spam_data ''activity_name'' = ''buy''" by code_simp
  have s: "\<not> spam_tripped tagged_spam_data" by code_simp
  have v: "validate_submission tagged_spam_data =
             Inr [(''activity_name'', ''buy''), (''school_name'', ''Harmony Center''),
                  (''category'', ''Sports''), (''city'', ''Sofia''), (''description'', [])]"
    by code_simp
  have h: "handle_activity_submission (Some parent) ''10.0.0.1'' 0 0 tagged_spam_data ''sub-3''
              ''2026-01-01 10:00:00'' (init_rate_limiter 0) empty_db
         = ((200, Success_body Submission_received),
            snd (is_rate_limited 0 0 (''10.0.0.1:'' @ submit_endpoint parent) 3 3600
                   (init_rate_limiter 0)),
            empty_db\<lparr>submitted_activities :=
              Some \<lparr>tbl_columns = submitted_activities_schema,
                    tbl_rows = [[SText ''sub-3'', SText ''parent-1'', SText ''buy'',
                                 SText ''Harmony Center'', SText ''Sports'', SText ''Sofia'',
                                 SText [], SText ''pending'', SText ''2026-01-01 10:00:00'']]\<rparr>\<rparr>)"
    by (simp add: handle_activity_submission_def r c v u empty_db_def insert_row_def
        column_names_def submitted_activities_schema_def field_of_def)
  show ?thesis using d f s by (simp add: h)
qed

subsection \<open>At most one pending claim per claimant and agency\<close>

lemma claim_step_pending:
  "length (pending_claims db uid aid) \<le> 1 \<Longrightarrow>
   length (pending_claims (snd (handle_agency_claim cur agency_id claim_id db)) uid aid) \<le> 1"
proof -
  assume le: "length (pending_claims db uid aid) \<le> 1"
  let ?R = "handle_agency_claim cur agency_id claim_id db"
  show "length (pending_claims (snd ?R) uid aid) \<le> 1"
  proof (cases "user_agency_claims (snd ?R) = user_agency_claims db")
    case True
    then show ?thesis using le by (simp add: pending_claims_def)
  next
    case False
    then obtain usr a where usr: "require_role cur [''school''] = Inr usr"
      and a: "agency_id = Some a"
      and nopend: "\<not> list_ex (is_pending_claim (u_id usr) a) (user_agency_claims db)"
      and new: "user_agency_claims (snd ?R) = user_agency_claims db @
                  [\<lparr>c_id = claim_id, c_user_id = u_id usr, c_agency_id = a, c_status = ''pending''\<rparr>]"
      by (auto simp: handle_agency_claim_def falsy_def split: sum.splits option.splits if_splits)
    show ?thesis
    proof (cases "uid = u_id usr \<and> aid = a")
      case True
      have "filter (is_pending_claim (u_id usr) a) (user_agency_claims db) = []"
        using nopend by (simp add: list_ex_iff filter_empty_conv)
      then show ?thesis using True new by (simp add: pending_claims_def is_pending_claim_def)
    next
      case False
      then show ?thesis using le new by (auto simp: pending_claims_def is_pending_claim_def)
    qed
  qed
qed

lemma run_claims_pending:
  "length (pending_claims db uid aid) \<le> 1 \<Longrightarrow>
   length (pending_claims (run_claims calls db) uid aid) \<le> 1"
proof (induction calls arbitrary: db)
  case Nil
  then show ?case by simp
next
  case (Cons c cs)
  then show ?case using claim_step_pending by simp
qed

lemma claim_conflict_step:
  assumes "u_role usr = ''school''" and "aid \<noteq> []"
    and "list_ex (\<lambda>s. s_id s = aid) (schools db)"
    and "pending_claims db (u_id usr) aid \<noteq> []"
  shows "handle_agency_claim (Some usr) (Some aid) claim_id db
           = ((400, Error_body Already_claimed), db)"
proof -
  obtain agency where "find (\<lambda>s. s_id s = aid) (schools db) = Some agency"
    using assms(3) by (cases "find (\<lambda>s. s_id s = aid) (schools db)")
      (auto simp: list_ex_iff find_None_iff)
  moreover have "list_ex (is_pending_claim (u_id usr) aid) (user_agency_claims db)"
    using assms(4) by (auto simp: pending_claims_def list_ex_iff filter_empty_conv)
  ultimately show ?thesis
    using assms(1,2) by (simp add: handle_agency_claim_def require_role_def falsy_def)
qed

text \<open>
  C7. When a pair of claimant and agency has at most one pending claim, it has at
  most one after any sequence of calls of the claim handler; and a call by a user of
  the role school for an existing agency on which that user has a pending claim is
  answered with 400 (the agency is already claimed) and inserts nothing.
\<close>

theorem pending_claim_conflict:
  assumes "length (pending_claims db uid aid) \<le> 1"
  shows "length (pending_claims (run_claims calls db) uid aid) \<le> 1
       \<and> (u_role usr = ''school'' \<and> u_id usr = uid \<and> aid \<noteq> []
            \<and> list_ex (\<lambda>s. s_id s = aid) (schools db) \<and> pending_claims db uid aid \<noteq> []
          \<longrightarrow> handle_agency_claim (Some usr) (Some aid) claim_id db
                = ((400, Error_body Already_claimed), db))"
  using run_claims_pending [OF assms] claim_conflict_step by blast

lemma first_claim_accepted:
  "handle_agency_claim (Some school_user) (Some ''ag-a'') ''c-1'' db_two_schools
     = ((200, Success_body (Claim_sent (SText ''Agency a''))),
        db_two_schools\<lparr>user_agency_claims :=
          [\<lparr>c_id = ''c-1'', c_user_id = ''u-1'', c_agency_id = ''ag-a'', c_status = ''pending''\<rparr>]\<rparr>)"
  by (simp add: handle_agency_claim_def require_role_def school_user_def falsy_def
      db_two_schools_def other_school_def)

theorem pending_claim_conflict_witness:
  "length (pending_claims db_two_schools ''u-1'' ''ag-a'') \<le> 1
     \<and> length (pending_claims (run_claims two_claims db_two_schools) ''u-1'' ''ag-a'') \<le> 1
     \<and> pending_claims (snd (handle_agency_claim (Some school_user) (Some ''ag-a'') ''c-1''
                               db_two_schools)) ''u-1'' ''ag-a'' \<noteq> []
     \<and> fst (handle_agency_claim (Some school_user) (Some ''ag-a'') ''c-2''
              (snd (handle_agency_claim (Some school_user) (Some ''ag-a'') ''c-1'' db_two_schools)))
         = (400, Error_body Already_claimed)"
proof -
  let ?db1 = "snd (handle_agency_claim (Some school_user) (Some ''ag-a'') ''c-1'' db_two_schools)"
  have h0: "length (pending_claims db_two_schools ''u-1'' ''ag-a'') \<le> 1"
    by (simp add: pending_claims_def db_two_schools_def)
  have p: "pending_claims ?db1 ''u-1'' ''ag-a'' \<noteq> []"
    by (simp add: first_claim_accepted pending_claims_def is_pending_claim_def)
  have h1: "length (pending_claims ?db1 ''u-1'' ''ag-a'') \<le> 1"
    by (simp add: first_claim_accepted pending_claims_def is_pending_claim_def)
  have e: "list_ex (\<lambda>s. s_id s = ''ag-a'') (schools ?db1)"
    unfolding first_claim_accepted by (simp add: db_two_schools_def other_school_def)
  have u: "u_role school_user = ''school''" "u_id school_user = ''u-1''"
    by (simp_all add: school_user_def)
  have "handle_agency_claim (Some school_user) (Some ''ag-a'') ''c-2'' ?db1
          = ((400, Error_body Already_claimed), ?db1)"
    using pending_claim_conflict [OF h1, of "[]" school_user "''c-2''"] u e p by simp
  moreover have "length (pending_claims (run_claims two_claims db_two_schools) ''u-1'' ''ag-a'') \<le> 1"
    using pending_claim_conflict [OF h0, of two_claims] by simp
  ultimately show ?thesis using h0 p by simp
qed

subsection \<open>What the list of claimable agencies holds\<close>








end
